theory Spec2Isabelle
  imports Complex_Main
begin

section \<open>JavaScript numbers\<close>

text \<open>
  A JavaScript Number is an IEEE binary64 value. It is modelled by the three special
  values and the finite values, a finite value carrying the real number it stands for.
  Every arithmetic operation computes the exact real result and rounds it to binary64
  (\<open>fl64\<close>: to the nearest value, a tie to the even one, a magnitude beyond the range to
  an infinity), as ECMAScript's Number::add, Number::multiply, Number::divide and
  Number::exponentiate do. One thing of binary64 is left out: the sign of zero (there is
  one zero, the positive one).
\<close>

datatype jsnum = NaN | PInf | NInf | Fin real

definition inf_of_sign :: "real \<Rightarrow> jsnum" where
  "inf_of_sign s = (if 0 < s then PInf else if s < 0 then NInf else NaN)"

text \<open>The nearest integer, a tie going to the even one.\<close>

definition roundHalfEven :: "real \<Rightarrow> int" where
  "roundHalfEven r =
     (let f = \<lfloor>r\<rfloor>; d = r - of_int f
      in if d < 1 / 2 then f else if 1 / 2 < d then f + 1 else if even f then f else f + 1)"

text \<open>
  The exponent \<open>q\<close> of the unit in the last place at \<open>x\<close>: the binary64 values near
  \<open>x\<close> are the multiples of \<open>2 ^ q\<close>, with a significand of 53 bits, and \<open>q\<close> is
  the least exponent from \<open>- 1074\<close> (the subnormal values) to \<open>971\<close> with
  \<open>\<bar>x\<bar> < 2 ^ (q + 53)\<close>. There is none from \<open>2 ^ 1024\<close> on.
\<close>

definition quantum :: "real \<Rightarrow> int option" where
  "quantum x = find (\<lambda>q. \<bar>x\<bar> < 2 powi (q + 53)) [- 1074..971]"

text \<open>
  Rounding a real to binary64. A result of magnitude \<open>2 ^ 1024\<close> (reached from the
  half-way point above the largest finite value on) is an infinity.
\<close>

definition fl64 :: "real \<Rightarrow> jsnum" where
  "fl64 x =
     (case quantum x of
        None \<Rightarrow> inf_of_sign x
      | Some q \<Rightarrow>
          (let y = of_int (roundHalfEven (x / 2 powi q)) * 2 powi q
           in if 2 ^ 1024 \<le> \<bar>y\<bar> then inf_of_sign x else Fin y))"

text \<open>The reals that are binary64 values: those that rounding leaves as they are.\<close>

definition is_double :: "real \<Rightarrow> bool" where
  "is_double x = (fl64 x = Fin x)"

fun js_sgn :: "jsnum \<Rightarrow> real" where
  "js_sgn NaN = 0"
| "js_sgn PInf = 1"
| "js_sgn NInf = - 1"
| "js_sgn (Fin x) = sgn x"

fun js_add :: "jsnum \<Rightarrow> jsnum \<Rightarrow> jsnum" where
  "js_add NaN _ = NaN"
| "js_add _ NaN = NaN"
| "js_add (Fin a) (Fin b) = fl64 (a + b)"
| "js_add PInf NInf = NaN"
| "js_add NInf PInf = NaN"
| "js_add PInf _ = PInf"
| "js_add _ PInf = PInf"
| "js_add NInf _ = NInf"
| "js_add _ NInf = NInf"

fun js_mul :: "jsnum \<Rightarrow> jsnum \<Rightarrow> jsnum" where
  "js_mul NaN _ = NaN"
| "js_mul _ NaN = NaN"
| "js_mul (Fin a) (Fin b) = fl64 (a * b)"
| "js_mul a b = inf_of_sign (js_sgn a * js_sgn b)"

fun js_div :: "jsnum \<Rightarrow> jsnum \<Rightarrow> jsnum" where
  "js_div NaN _ = NaN"
| "js_div _ NaN = NaN"
| "js_div (Fin a) (Fin b) = (if b = 0 then inf_of_sign a else fl64 (a / b))"
| "js_div (Fin a) _ = Fin 0"
| "js_div PInf (Fin b) = (if 0 \<le> b then PInf else NInf)"
| "js_div NInf (Fin b) = (if 0 \<le> b then NInf else PInf)"
| "js_div _ _ = NaN"

text \<open>\<open>a >= b\<close> on Numbers: false as soon as one side is NaN.\<close>

fun js_ge :: "jsnum \<Rightarrow> jsnum \<Rightarrow> bool" where
  "js_ge NaN _ = False"
| "js_ge _ NaN = False"
| "js_ge PInf _ = True"
| "js_ge _ NInf = True"
| "js_ge NInf _ = False"
| "js_ge _ PInf = False"
| "js_ge (Fin a) (Fin b) = (b \<le> a)"

definition isIntegral :: "real \<Rightarrow> bool" where
  "isIntegral x = (of_int \<lfloor>x\<rfloor> = x)"

definition odd_integral :: "real \<Rightarrow> bool" where
  "odd_integral e = (isIntegral e \<and> odd \<lfloor>e\<rfloor>)"

text \<open>
  \<open>Math.pow\<close>, in the order of the steps of Number::exponentiate: a NaN exponent, a zero
  exponent (the result is 1 whatever the base, NaN included), a NaN base, the infinite
  and zero bases, the infinite exponents, a negative base with a fractional exponent,
  and the power of the two reals. ECMAScript leaves the last step to the implementation
  ("an implementation-approximated value"); here it is the real power rounded to
  binary64, which overflows to an infinity as the implementations do.
\<close>

definition Math_pow :: "jsnum \<Rightarrow> jsnum \<Rightarrow> jsnum" where
  "Math_pow base exponent =
     (if exponent = NaN then NaN
      else if exponent = Fin 0 then Fin 1
      else if base = NaN then NaN
      else if base = PInf then (if js_sgn exponent = 1 then PInf else Fin 0)
      else if base = NInf then
        (if js_sgn exponent = 1
         then (case exponent of Fin e \<Rightarrow> (if odd_integral e then NInf else PInf) | _ \<Rightarrow> PInf)
         else Fin 0)
      else if base = Fin 0 then (if js_sgn exponent = 1 then Fin 0 else PInf)
      else (case (base, exponent) of
              (Fin x, PInf) \<Rightarrow>
                (if 1 < \<bar>x\<bar> then PInf else if \<bar>x\<bar> = 1 then NaN else Fin 0)
            | (Fin x, NInf) \<Rightarrow>
                (if 1 < \<bar>x\<bar> then Fin 0 else if \<bar>x\<bar> = 1 then NaN else PInf)
            | (Fin x, Fin e) \<Rightarrow>
                (if x < 0 \<and> \<not> isIntegral e then NaN
                 else if x < 0 then fl64 (x powi \<lfloor>e\<rfloor>)
                 else fl64 (x powr e))
            | _ \<Rightarrow> NaN))"

text \<open>
  \<open>Math.round\<close>: the nearest integer, a tie going towards plus infinity. For a binary64
  argument that integer is a binary64 value, so nothing is rounded a second time.
\<close>

fun Math_round :: "jsnum \<Rightarrow> jsnum" where
  "Math_round (Fin x) = Fin (of_int \<lfloor>x + 1 / 2\<rfloor>)"
| "Math_round n = n"

section \<open>Value projector\<close>

text \<open>
  \<open>calculateProgressiveValue\<close> (App.jsx). The last three parameters have defaults in
  the source (\<open>userMultiplier = 1.0\<close>, \<open>strategy = 'linear'\<close>,
  \<open>adaptiveFactor = 1.0\<close>), which JavaScript takes when the argument is \<open>undefined\<close>:
  they are options here, \<open>None\<close> being \<open>undefined\<close>. The strategy is compared with the
  string \<open>'percentage'\<close>; every other value takes the linear branch. The week number is
  an integer (one that is a binary64 value, as every integer up to \<open>2 ^ 53\<close> is);
  \<open>weekNumber - 1\<close> is a Number subtraction, rounded as the others.
\<close>

definition calculateProgressiveValue ::
  "jsnum \<Rightarrow> int \<Rightarrow> jsnum \<Rightarrow> jsnum option \<Rightarrow> string option \<Rightarrow> jsnum option \<Rightarrow> jsnum" where
  "calculateProgressiveValue baseValue weekNumber increment userMultiplier' strategy' adaptiveFactor' =
     (let userMultiplier = (case userMultiplier' of None \<Rightarrow> Fin 1 | Some m \<Rightarrow> m);
          strategy = (case strategy' of None \<Rightarrow> ''linear'' | Some s \<Rightarrow> s);
          adaptiveFactor = (case adaptiveFactor' of None \<Rightarrow> Fin 1 | Some f \<Rightarrow> f);
          weeksProgressed = fl64 (of_int (weekNumber - 1))
      in if strategy = ''percentage'' then
           (let percentIncrease = js_div increment (Fin 100)
            in js_mul baseValue
                 (Math_pow (js_add (Fin 1) percentIncrease)
                    (js_mul (js_mul weeksProgressed userMultiplier) adaptiveFactor)))
         else js_add baseValue
                (js_mul (js_mul (js_mul increment weeksProgressed) userMultiplier) adaptiveFactor))"

section \<open>JavaScript values and strings\<close>

text \<open>
  The values a details record holds are the primitive values (what JSON and the document
  store give). A string is a list of 8-bit characters, read as code units.
\<close>

datatype jsval = Undefined | Null | Bool bool | Num jsnum | Str string

text \<open>An object with string keys; a missing property reads as \<open>undefined\<close>.\<close>

type_synonym jsobject = "string \<Rightarrow> jsval option"

definition getProp :: "jsobject \<Rightarrow> string \<Rightarrow> jsval" where
  "getProp obj name = (case obj name of None \<Rightarrow> Undefined | Some v \<Rightarrow> v)"

definition numTruthy :: "jsnum \<Rightarrow> bool" where
  "numTruthy n = (n \<noteq> NaN \<and> n \<noteq> Fin 0)"

fun truthy :: "jsval \<Rightarrow> bool" where
  "truthy Undefined = False"
| "truthy Null = False"
| "truthy (Bool b) = b"
| "truthy (Num n) = numTruthy n"
| "truthy (Str s) = (s \<noteq> [])"

definition isDigit :: "char \<Rightarrow> bool" where
  "isDigit c = (c \<in> set ''0123456789'')"

text \<open>The character class \<open>[0-9.-]\<close>.\<close>

definition isNumeric :: "char \<Rightarrow> bool" where
  "isNumeric c = (c \<in> set ''0123456789.-'')"

definition digitValue :: "char \<Rightarrow> nat" where
  "digitValue c = of_char c - 48"

definition decimalValue :: "string \<Rightarrow> nat" where
  "decimalValue ds = foldl (\<lambda>acc c. 10 * acc + digitValue c) 0 ds"

definition digitChar :: "nat \<Rightarrow> char" where
  "digitChar d = ''0123456789'' ! d"

fun digitsOf :: "nat \<Rightarrow> string" where
  "digitsOf n = (if n < 10 then [digitChar n] else digitsOf (n div 10) @ [digitChar (n mod 10)])"

declare digitsOf.simps [simp del]

text \<open>
  Number::toString writes the shortest digits that read back as the same binary64 value:
  integers \<open>n\<close>, \<open>k\<close>, \<open>s\<close> with \<open>k \<ge> 1\<close> as small as possible,
  \<open>10 ^ (k - 1) \<le> s < 10 ^ k\<close> and \<open>s * 10 ^ (n - k)\<close> rounding to the Number; among
  several such \<open>s\<close> the one whose value is closest to the Number, the even one on a
  tie (ECMAScript leaves that choice open and recommends the closest, which the engines
  write).

  \<open>decimalExponent a\<close> is the \<open>n\<close> with \<open>10 ^ (n - 1) \<le> a < 10 ^ n\<close>, within the
  range of binary64. For \<open>k\<close> digits the candidates are the two integers next to
  \<open>a / 10 ^ (n - k)\<close>, for that \<open>n\<close> and for \<open>n + 1\<close> (a value that reads back as
  \<open>a\<close> lies within half a unit in the last place of \<open>a\<close>, and the closest such
  values are among these). Seventeen digits always read back, so the search over
  \<open>k\<close> ends there; the last case of \<open>shortest\<close> is not reached on a binary64
  value.
\<close>

definition decimalExponent :: "real \<Rightarrow> int" where
  "decimalExponent a =
     (case find (\<lambda>n. a < 10 powi n) [- 323..309] of Some n \<Rightarrow> n | None \<Rightarrow> 309)"

definition roundTrips :: "real \<Rightarrow> nat \<Rightarrow> int \<times> int \<Rightarrow> bool" where
  "roundTrips a k c =
     (case c of (n, s) \<Rightarrow>
        10 ^ (k - 1) \<le> s \<and> s < 10 ^ k \<and> fl64 (of_int s * 10 powi (n - int k)) = Fin a)"

definition candidates :: "real \<Rightarrow> nat \<Rightarrow> (int \<times> int) list" where
  "candidates a k =
     (let n = decimalExponent a;
          s0 = \<lfloor>a / 10 powi (n - int k)\<rfloor>;
          s1 = \<lfloor>a / 10 powi (n + 1 - int k)\<rfloor>
      in filter (roundTrips a k) [(n, s0), (n, s0 + 1), (n + 1, s1), (n + 1, s1 + 1)])"

definition closer :: "real \<Rightarrow> nat \<Rightarrow> int \<times> int \<Rightarrow> int \<times> int \<Rightarrow> int \<times> int" where
  "closer a k c d =
     (let ec = \<bar>of_int (snd c) * 10 powi (fst c - int k) - a\<bar>;
          ed = \<bar>of_int (snd d) * 10 powi (fst d - int k) - a\<bar>
      in if ed < ec \<or> (ed = ec \<and> odd (snd c) \<and> even (snd d)) then d else c)"

definition shortest :: "real \<Rightarrow> int \<times> nat \<times> int" where
  "shortest a =
     (case find (\<lambda>k. candidates a k \<noteq> []) [1..<18] of
        Some k \<Rightarrow>
          (case candidates a k of
             c # cs \<Rightarrow> (let b = foldl (closer a k) c cs in (fst b, k, snd b))
           | [] \<Rightarrow> (decimalExponent a, k, 0))
      | None \<Rightarrow> (decimalExponent a, 17, \<lfloor>a / 10 powi (decimalExponent a - 17)\<rfloor>))"

text \<open>
  The notation for \<open>n\<close>, \<open>k\<close>, \<open>s\<close>: an integer with trailing zeros, a decimal
  point inside the digits, leading zeros after \<open>0.\<close>, and otherwise the exponent
  notation.
\<close>

definition formatNumber :: "int \<times> nat \<times> int \<Rightarrow> string" where
  "formatNumber t =
     (case t of (n, k, s) \<Rightarrow>
        (let ds = digitsOf (nat s)
         in if int k \<le> n \<and> n \<le> 21 then ds @ replicate (nat (n - int k)) CHR ''0''
            else if 0 < n \<and> n \<le> 21 then take (nat n) ds @ ''.'' @ drop (nat n) ds
            else if - 6 < n \<and> n \<le> 0 then ''0.'' @ replicate (nat (- n)) CHR ''0'' @ ds
            else
              (let e = n - 1;
                   es = (if e < 0 then ''-'' else ''+'') @ digitsOf (nat \<bar>e\<bar>)
               in if k = 1 then ds @ ''e'' @ es
                  else take 1 ds @ ''.'' @ drop 1 ds @ ''e'' @ es)))"

definition numToString :: "jsnum \<Rightarrow> string" where
  "numToString x =
     (case x of
        NaN \<Rightarrow> ''NaN''
      | PInf \<Rightarrow> ''Infinity''
      | NInf \<Rightarrow> ''-Infinity''
      | Fin x \<Rightarrow>
          if x = 0 then ''0''
          else (if x < 0 then ''-'' else []) @ formatNumber (shortest \<bar>x\<bar>))"

fun toString :: "jsval \<Rightarrow> string" where
  "toString Undefined = ''undefined''"
| "toString Null = ''null''"
| "toString (Bool b) = (if b then ''true'' else ''false'')"
| "toString (Num n) = numToString n"
| "toString (Str s) = s"

text \<open>
  \<open>Number.prototype.toFixed(1)\<close>: a value that is not finite, or of magnitude
  \<open>10 ^ 21\<close> and more, is written by Number::toString; otherwise the nearest multiple
  of one tenth (the larger one on a tie, on the absolute value), with one digit after
  the point.
\<close>

definition toFixed1 :: "jsnum \<Rightarrow> string" where
  "toFixed1 n =
     (case n of
        Fin x \<Rightarrow>
          (let s = (if x < 0 then ''-'' else []);
               a = \<bar>x\<bar>
           in if 10 ^ 21 \<le> a then s @ numToString (Fin a)
              else
                (let m = digitsOf (nat \<lfloor>a * 10 + 1 / 2\<rfloor>);
                     m = (if length m \<le> 1 then replicate (2 - length m) CHR ''0'' @ m else m)
                 in s @ take (length m - 1) m @ ''.'' @ drop (length m - 1) m))
      | _ \<Rightarrow> numToString n)"

text \<open>
  \<open>parseFloat\<close> on a string: leading white space is dropped, then the longest prefix
  that is a decimal literal is read (a sign, \<open>Infinity\<close> or digits with an optional
  fraction and an optional exponent); with no such prefix the result is NaN. The value
  of the literal is rounded to binary64.
\<close>

definition isWhiteSpace :: "char \<Rightarrow> bool" where
  "isWhiteSpace c = (of_char c \<in> {9, 10, 11, 12, 13, 32, 160 :: nat})"

definition signOf :: "string \<Rightarrow> int \<times> string" where
  "signOf s =
     (case s of
        [] \<Rightarrow> (1, s)
      | c # cs \<Rightarrow>
          if c = CHR ''-'' then (- 1, cs)
          else if c = CHR ''+'' then (1, cs)
          else (1, s))"

definition exponentPart :: "string \<Rightarrow> int" where
  "exponentPart s =
     (case s of
        [] \<Rightarrow> 0
      | c # cs \<Rightarrow>
          if c = CHR ''e'' \<or> c = CHR ''E'' then
            (let (sg, r) = signOf cs;
                 ds = takeWhile isDigit r
             in if ds = [] then 0 else sg * int (decimalValue ds))
          else 0)"

definition parseFloat :: "string \<Rightarrow> jsnum" where
  "parseFloat inputString =
     (let trimmed = dropWhile isWhiteSpace inputString;
          (sg, body) = signOf trimmed
      in if take 8 body = ''Infinity'' then (if sg < 0 then NInf else PInf)
         else
           (let intDigits = takeWhile isDigit body;
                afterInt = dropWhile isDigit body;
                (fracDigits, afterFrac) =
                  (case afterInt of
                     [] \<Rightarrow> ([], afterInt)
                   | c # cs \<Rightarrow>
                       if c = CHR ''.'' then (takeWhile isDigit cs, dropWhile isDigit cs)
                       else ([], afterInt))
            in if intDigits = [] \<and> fracDigits = [] then NaN
               else fl64 (of_int sg
                          * (of_nat (decimalValue intDigits)
                            + of_nat (decimalValue fracDigits) / 10 ^ length fracDigits)
                         * 10 powi exponentPart afterFrac)))"

text \<open>
  \<open>parseFloat\<close> on a value: the argument is converted to a string first. A Number's
  own string reads back as that Number (Number::toString round-trips, NaN and the
  infinities included), which the model returns directly.
\<close>

definition parseFloatOf :: "jsval \<Rightarrow> jsnum" where
  "parseFloatOf v = (case v of Num n \<Rightarrow> n | _ \<Rightarrow> parseFloat (toString v))"

text \<open>\<open>String(v).replace(/[0-9.-]/g, '')\<close>.\<close>

definition unitOf :: "jsval \<Rightarrow> string" where
  "unitOf v = filter (\<lambda>c. \<not> isNumeric c) (toString v)"

text \<open>
  The regular expression \<open>/([+-]?\d+(?:\.\d+)?)/\<close>. \<open>matchHere\<close> is a match that
  starts at the head of the string: an optional sign, digits, and a fraction when a point
  and a digit follow. A sign with no digit after it does not match (without the sign the
  digits would have to start at the sign itself).
\<close>

definition matchHere :: "string \<Rightarrow> string option" where
  "matchHere s =
     (let (sg, r) =
            (case s of
               [] \<Rightarrow> ([], s)
             | c # cs \<Rightarrow> if c = CHR ''+'' \<or> c = CHR ''-'' then ([c], cs) else ([], s));
          ds = takeWhile isDigit r;
          rest = dropWhile isDigit r;
          fraction =
            (case rest of
               [] \<Rightarrow> []
             | c # cs \<Rightarrow>
                 if c = CHR ''.'' \<and> takeWhile isDigit cs \<noteq> [] then c # takeWhile isDigit cs
                 else [])
      in if ds = [] then None else Some (sg @ ds @ fraction))"

text \<open>
  The leftmost match: what precedes it, the matched text (the one capture group), and
  what follows it.
\<close>

fun weightMatch :: "string \<Rightarrow> (string \<times> string \<times> string) option" where
  "weightMatch [] = None"
| "weightMatch (c # cs) =
     (case matchHere (c # cs) of
        Some m \<Rightarrow> Some ([], m, drop (length m) (c # cs))
      | None \<Rightarrow>
          (case weightMatch cs of
             None \<Rightarrow> None
           | Some (before, m, after) \<Rightarrow> Some (c # before, m, after)))"

section \<open>Detail projector\<close>

text \<open>
  The progression settings as the data model has them: an object with a strategy, an
  \<open>increments\<close> object whose entries are Numbers, and a user multiplier. A missing
  strategy, multiplier or increment is \<open>None\<close> (it reads as \<open>undefined\<close>).
\<close>

record progressionSettings =
  strategy :: "string option"
  increments :: "string \<Rightarrow> jsnum option"
  userMultiplier :: "jsnum option"

text \<open>\<open>increments.field\<close> when it is truthy.\<close>

definition truthyIncrement :: "'a progressionSettings_scheme \<Rightarrow> string \<Rightarrow> jsnum option" where
  "truthyIncrement settings field =
     (case increments settings field of
        None \<Rightarrow> None
      | Some inc \<Rightarrow> if numTruthy inc then Some inc else None)"

text \<open>
  The call \<open>calculateProgressiveValue(base, currentWeek, increments.field,
  userMultiplier, strategy, adaptiveFactor)\<close> that each block of \<open>applyProgression\<close>
  makes, \<open>strategy\<close> and \<open>userMultiplier\<close> being the properties of the settings.
\<close>

definition progress ::
  "'a progressionSettings_scheme \<Rightarrow> int \<Rightarrow> jsnum \<Rightarrow> jsnum \<Rightarrow> jsnum \<Rightarrow> jsnum" where
  "progress settings currentWeek adaptiveFactor baseValue increment =
     calculateProgressiveValue baseValue currentWeek increment
       (userMultiplier settings) (strategy settings) (Some adaptiveFactor)"

text \<open>
  The four blocks of \<open>applyProgression\<close>, each reading the baseline and writing the
  result. First \<open>sets\<close>: touched when the baseline value is a Number and
  \<open>increments.sets\<close> is truthy.
\<close>

definition progressSets ::
  "jsobject \<Rightarrow> int \<Rightarrow> 'a progressionSettings_scheme \<Rightarrow> jsnum \<Rightarrow> jsobject \<Rightarrow> jsobject" where
  "progressSets baselineDetails currentWeek settings adaptiveFactor result =
     (case getProp baselineDetails ''sets'' of
        Num sets \<Rightarrow>
          (case truthyIncrement settings ''sets'' of
             Some inc \<Rightarrow>
               result(''sets'' \<mapsto>
                 Num (Math_round (progress settings currentWeek adaptiveFactor sets inc)))
           | None \<Rightarrow> result)
      | _ \<Rightarrow> result)"

text \<open>
  \<open>reps\<close>: a truthy baseline value is parsed; when the parse is a Number and
  \<open>increments.reps\<close> is truthy, the rounded new value is concatenated with the unit,
  which makes a string.
\<close>

definition progressReps ::
  "jsobject \<Rightarrow> int \<Rightarrow> 'a progressionSettings_scheme \<Rightarrow> jsnum \<Rightarrow> jsobject \<Rightarrow> jsobject" where
  "progressReps baselineDetails currentWeek settings adaptiveFactor result =
     (if truthy (getProp baselineDetails ''reps'') then
        (let repsNum = parseFloatOf (getProp baselineDetails ''reps'')
         in case truthyIncrement settings ''reps'' of
              Some inc \<Rightarrow>
                if repsNum \<noteq> NaN then
                  (let newReps = progress settings currentWeek adaptiveFactor repsNum inc;
                       unit = unitOf (getProp baselineDetails ''reps'')
                   in result(''reps'' \<mapsto> Str (numToString (Math_round newReps) @ unit)))
                else result
            | None \<Rightarrow> result)
      else result)"

text \<open>
  \<open>weight\<close>: a non-empty string with a numeral in it; the numeral is replaced by the
  new weight with one decimal.
\<close>

definition progressWeight ::
  "jsobject \<Rightarrow> int \<Rightarrow> 'a progressionSettings_scheme \<Rightarrow> jsnum \<Rightarrow> jsobject \<Rightarrow> jsobject" where
  "progressWeight baselineDetails currentWeek settings adaptiveFactor result =
     (case getProp baselineDetails ''weight'' of
        Str weight \<Rightarrow>
          if weight \<noteq> [] then
            (case weightMatch weight of
               Some (before, matched, after) \<Rightarrow>
                 (case truthyIncrement settings ''weight'' of
                    Some inc \<Rightarrow>
                      (let baseWeight = parseFloat matched;
                           newWeight = progress settings currentWeek adaptiveFactor baseWeight inc
                       in result(''weight'' \<mapsto> Str (before @ toFixed1 newWeight @ after)))
                  | None \<Rightarrow> result)
             | None \<Rightarrow> result)
          else result
      | _ \<Rightarrow> result)"

text \<open>\<open>duration\<close>: as \<open>sets\<close>.\<close>

definition progressDuration ::
  "jsobject \<Rightarrow> int \<Rightarrow> 'a progressionSettings_scheme \<Rightarrow> jsnum \<Rightarrow> jsobject \<Rightarrow> jsobject" where
  "progressDuration baselineDetails currentWeek settings adaptiveFactor result =
     (case getProp baselineDetails ''duration'' of
        Num duration \<Rightarrow>
          (case truthyIncrement settings ''duration'' of
             Some inc \<Rightarrow>
               result(''duration'' \<mapsto>
                 Num (Math_round (progress settings currentWeek adaptiveFactor duration inc)))
           | None \<Rightarrow> result)
      | _ \<Rightarrow> result)"

text \<open>
  \<open>applyProgression\<close>. The result starts as a copy of the baseline and goes through
  the four blocks in the order of the source. The last parameter has the default
  \<open>1.0\<close>.
\<close>

definition applyProgression ::
  "jsobject \<Rightarrow> int \<Rightarrow> 'a progressionSettings_scheme \<Rightarrow> jsnum option \<Rightarrow> jsobject" where
  "applyProgression baselineDetails currentWeek settings adaptiveFactor' =
     (let adaptiveFactor = (case adaptiveFactor' of None \<Rightarrow> Fin 1 | Some f \<Rightarrow> f);
          result = baselineDetails;
          result = progressSets baselineDetails currentWeek settings adaptiveFactor result;
          result = progressReps baselineDetails currentWeek settings adaptiveFactor result;
          result = progressWeight baselineDetails currentWeek settings adaptiveFactor result;
          result = progressDuration baselineDetails currentWeek settings adaptiveFactor result
      in result)"

section \<open>Adherence analyzer\<close>

text \<open>
  A completion log entry as the engine reads it: the week number (an integer, as the
  dashboard writes it) and the completion timestamp (milliseconds), each possibly absent
  (\<open>None\<close>, the property reads as \<open>undefined\<close>). The other properties of an entry (plan name, day, focus, exercise
  names) are never read by the functions modelled here; the record scheme leaves room
  for them.
\<close>

record log_entry =
  weekNumber :: "int option"
  completedAt :: "int option"

text \<open>
  The filter of \<open>calculateAdaptiveFactor\<close>:
  \<open>log.weekNumber >= currentWeek - 3 && log.weekNumber < currentWeek\<close>. With
  \<open>weekNumber\<close> undefined both comparisons are false.
\<close>

definition inWindow :: "int \<Rightarrow> 'a log_entry_scheme \<Rightarrow> bool" where
  "inWindow currentWeek entry =
     (case weekNumber entry of
        None \<Rightarrow> False
      | Some n \<Rightarrow> currentWeek - 3 \<le> n \<and> n < currentWeek)"

definition recentWorkouts :: "'a log_entry_scheme list \<Rightarrow> int \<Rightarrow> 'a log_entry_scheme list" where
  "recentWorkouts history currentWeek = filter (inWindow currentWeek) history"

text \<open>
  \<open>weeksCovered\<close>, \<open>expectedWorkouts\<close> and \<open>completionRate\<close>; the division is the
  Number division, so a zero \<open>expectedWorkouts\<close> gives an infinity or NaN.
\<close>

definition completionRate :: "nat \<Rightarrow> int \<Rightarrow> jsnum" where
  "completionRate recentLength currentWeek =
     (let weeksCovered = min 3 (currentWeek - 1);
          expectedWorkouts = weeksCovered * 4
      in js_div (Fin (of_nat recentLength)) (Fin (of_int expectedWorkouts)))"

text \<open>
  The final \<open>if\<close> chain on \<open>completionRate\<close>. The decimal literals of the source
  are written as the decimals they name (the program holds the binary64 value nearest to
  each, which is what \<open>0.9\<close>, \<open>0.95\<close> and \<open>1.1\<close> print as).
\<close>

definition adaptiveTier :: "jsnum \<Rightarrow> jsnum" where
  "adaptiveTier rate =
     (if js_ge rate (Fin 0.9) then Fin 1.1
      else if js_ge rate (Fin 0.7) then Fin 1
      else if js_ge rate (Fin 0.5) then Fin 0.95
      else Fin 0.9)"

definition calculateAdaptiveFactor :: "'a log_entry_scheme list \<Rightarrow> int \<Rightarrow> jsnum" where
  "calculateAdaptiveFactor history currentWeek =
     (let recent = recentWorkouts history currentWeek
      in if length recent < 3 then Fin 1
         else adaptiveTier (completionRate (length recent) currentWeek))"

text \<open>
  The qualifying entries in the words of the specification: those whose recorded week
  number \<open>n\<close> satisfies \<open>currentWeek - 3 \<le> n < currentWeek\<close>.
\<close>

definition qualifying_spec :: "'a log_entry_scheme list \<Rightarrow> int \<Rightarrow> 'a log_entry_scheme list" where
  "qualifying_spec history currentWeek =
     filter (\<lambda>e. weekNumber e \<in> Some ` {currentWeek - 3 ..< currentWeek}) history"

definition hasWeekNumber :: "'a log_entry_scheme \<Rightarrow> bool" where
  "hasWeekNumber e = (weekNumber e \<noteq> None)"

definition bothPresent :: "'a log_entry_scheme \<Rightarrow> bool" where
  "bothPresent e = (weekNumber e \<noteq> None \<and> completedAt e \<noteq> None)"

text \<open>
  A document of the history collection: a log entry together with the profile it was
  logged for (absent on a document that carries no \<open>profileId\<close>).
\<close>

record history_doc = log_entry +
  profileId :: "string option"

text \<open>
  The history listener that feeds the dashboard (\<open>onSnapshot\<close> on the history
  collection, in the component that renders \<open>DashboardView\<close>): a document is kept
  when \<open>data.profileId === activeProfileId\<close> and its \<open>completedAt\<close> is a
  timestamp, and the kept ones are sorted by \<open>b.completedAt - a.completedAt\<close>, the
  newest first (\<open>Array.prototype.sort\<close> is stable, as \<open>sort_key\<close> is). The
  listener runs only with an active profile, a non-empty string.
\<close>

definition loadHistory ::
  "string \<Rightarrow> 'a history_doc_scheme list \<Rightarrow> 'a history_doc_scheme list" where
  "loadHistory activeProfileId docs =
     sort_key (\<lambda>e. case completedAt e of None \<Rightarrow> 0 | Some t \<Rightarrow> - t)
       (filter (\<lambda>data. profileId data = Some activeProfileId \<and> completedAt data \<noteq> None) docs)"

section \<open>Schedule clock\<close>

text \<open>
  The remainder operator \<open>%\<close> on integers: the result has the sign of the dividend, and
  a zero divisor gives NaN (\<open>None\<close>).
\<close>

definition js_rem :: "int \<Rightarrow> int \<Rightarrow> int option" where
  "js_rem a b = (if b = 0 then None else Some (sgn a * (\<bar>a\<bar> mod \<bar>b\<bar>)))"

text \<open>
  \<open>currentPlanWeek\<close> of \<open>DashboardView\<close>, from \<open>diffDays\<close>:
  \<open>(Math.floor(diffDays / 7) % plan.durationWeeks) + 1\<close>.
\<close>

definition planWeekOfDays :: "int \<Rightarrow> int \<Rightarrow> int option" where
  "planWeekOfDays diffDays durationWeeks =
     (case js_rem (diffDays div 7) durationWeeks of
        None \<Rightarrow> None
      | Some r \<Rightarrow> Some (r + 1))"

text \<open>
  \<open>diffTime = Math.abs(today - planStartDate)\<close> and
  \<open>diffDays = Math.floor(diffTime / (1000 * 60 * 60 * 24))\<close>, the two dates in
  milliseconds.
\<close>

definition currentPlanWeek :: "int \<Rightarrow> int \<Rightarrow> int \<Rightarrow> int option" where
  "currentPlanWeek today planStartDate durationWeeks =
     (let diffTime = \<bar>today - planStartDate\<bar>;
          diffDays = diffTime div (1000 * 60 * 60 * 24)
      in planWeekOfDays diffDays durationWeeks)"


section \<open>Binary64 rounding: lemmas\<close>

lemma roundHalfEven_of_int [simp]: "roundHalfEven (of_int n) = n"
  by (simp add: roundHalfEven_def)

lemma roundHalfEven_ge: "of_int M \<le> r \<Longrightarrow> M \<le> roundHalfEven r"
proof -
  assume "of_int M \<le> r"
  then have "M \<le> \<lfloor>r\<rfloor>" by (simp add: le_floor_iff)
  then show ?thesis by (simp add: roundHalfEven_def Let_def)
qed

lemma roundHalfEven_le: "r \<le> of_int M \<Longrightarrow> roundHalfEven r \<le> M"
proof (cases "r = of_int M")
  case True
  then show ?thesis by simp
next
  case False
  assume "r \<le> of_int M"
  with False have "r < of_int M" by simp
  then have "\<lfloor>r\<rfloor> < M" by (simp add: floor_less_iff)
  then show ?thesis by (simp add: roundHalfEven_def Let_def)
qed

lemma find_upto_Some:
  assumes "find P [a..b] = Some q"
  shows "a \<le> q" and "q \<le> b" and "P q" and "\<And>q'. a \<le> q' \<Longrightarrow> q' < q \<Longrightarrow> \<not> P q'"
proof -
  from assms obtain i where i: "i < length [a..b]" "P ([a..b] ! i)"
    "q = [a..b] ! i" "\<forall>j<i. \<not> P ([a..b] ! j)"
    unfolding find_Some_iff by blast
  from i(1) have ib: "a + int i \<le> b" by simp
  then have qi: "q = a + int i" using i(3) by simp
  show "a \<le> q" using qi by simp
  show "q \<le> b" using qi ib by simp
  show "P q" using i(2) i(3) by simp
  fix q' :: int
  assume q': "a \<le> q'" "q' < q"
  let ?j = "nat (q' - a)"
  have j: "?j < i" using q' qi by simp
  have "[a..b] ! ?j = a + int ?j"
    by (rule nth_upto) (use j ib q' in simp)
  then have "[a..b] ! ?j = q'" using q' by simp
  with i(4) j show "\<not> P q'" by metis
qed

lemma find_upto_None: "find P [a..b] = None \<longleftrightarrow> (\<forall>q. a \<le> q \<and> q \<le> b \<longrightarrow> \<not> P q)"
  by (auto simp: find_None_iff)

lemma quantum_SomeD:
  assumes "quantum x = Some q"
  shows "- 1074 \<le> q" and "q \<le> 971" and "\<bar>x\<bar> < 2 powi (q + 53)"
    and "\<And>q'. - 1074 \<le> q' \<Longrightarrow> q' < q \<Longrightarrow> 2 powi (q' + 53) \<le> \<bar>x\<bar>"
proof -
  note f = find_upto_Some [OF assms [unfolded quantum_def]]
  show "- 1074 \<le> q" by (rule f(1))
  show "q \<le> 971" by (rule f(2))
  show "\<bar>x\<bar> < 2 powi (q + 53)" by (rule f(3))
  fix q' :: int
  assume "- 1074 \<le> q'" "q' < q"
  from f(4) [OF this] show "2 powi (q' + 53) \<le> \<bar>x\<bar>" by simp
qed

lemma quantum_exists:
  assumes "- 1074 \<le> k" "k \<le> 971" "\<bar>x\<bar> < 2 powi (k + 53)"
  obtains q where "quantum x = Some q" "q \<le> k"
proof -
  have "quantum x \<noteq> None"
    unfolding quantum_def find_upto_None using assms by blast
  then obtain q where q: "quantum x = Some q" by blast
  have "q \<le> k"
  proof (rule ccontr)
    assume "\<not> q \<le> k"
    then have "k < q" by simp
    from quantum_SomeD(4) [OF q assms(1) this] assms(3) show False by simp
  qed
  with q that show thesis by blast
qed

lemma quantum_None: "quantum x = None \<longleftrightarrow> 2 ^ 1024 \<le> \<bar>x\<bar>"
proof
  assume "quantum x = None"
  then have "\<forall>q. - 1074 \<le> q \<and> q \<le> 971 \<longrightarrow> \<not> \<bar>x\<bar> < 2 powi (q + 53)"
    unfolding quantum_def find_upto_None .
  from this [rule_format, of 971] have "\<not> \<bar>x\<bar> < 2 powi (971 + 53)"
    by simp
  then show "2 ^ 1024 \<le> \<bar>x\<bar>" by simp
next
  assume a: "2 ^ 1024 \<le> \<bar>x\<bar>"
  have "\<not> \<bar>x\<bar> < 2 powi (q + 53)" if "q \<le> 971" for q :: int
  proof -
    from that have "q + 53 \<le> 1024" by simp
    then have "(2::real) powi (q + 53) \<le> 2 powi 1024"
      by (intro power_int_increasing) simp_all
    with a show ?thesis by simp
  qed
  then show "quantum x = None"
    unfolding quantum_def find_upto_None by blast
qed

lemma fl64_overflow: "2 ^ 1024 \<le> \<bar>x\<bar> \<Longrightarrow> fl64 x = inf_of_sign x"
proof -
  assume "2 ^ 1024 \<le> \<bar>x\<bar>"
  then have "quantum x = None" by (rule quantum_None [THEN iffD2])
  then show ?thesis by (simp add: fl64_def)
qed

lemma fl64_dyadic:
  assumes m: "\<bar>m\<bar> < 2 ^ 53" and k: "- 1074 \<le> k" "k \<le> 971"
  shows "fl64 (of_int m * 2 powi k) = Fin (of_int m * 2 powi k)"
proof -
  let ?x = "of_int m * 2 powi k :: real"
  have ax: "\<bar>?x\<bar> = of_int \<bar>m\<bar> * 2 powi k"
    by (simp add: abs_mult)
  have "of_int \<bar>m\<bar> < (2::real) ^ 53"
    using m by (metis of_int_less_numeral_power_cancel_iff)
  then have "\<bar>?x\<bar> < 2 ^ 53 * 2 powi k"
    unfolding ax by (intro mult_strict_right_mono) simp_all
  also have "\<dots> = 2 powi (k + 53)"
    by (simp add: power_int_add)
  finally have lt: "\<bar>?x\<bar> < 2 powi (k + 53)" .
  from quantum_exists [OF k lt] obtain q where q: "quantum ?x = Some q" "q \<le> k" by blast
  have "(2::real) powi k = 2 powi (k - q) * 2 powi q"
    by (simp flip: power_int_add)
  also have "(2::real) powi (k - q) = 2 ^ nat (k - q)"
    using q(2) by (simp add: power_int_nonneg_exp)
  finally have pk: "(2::real) powi k = 2 ^ nat (k - q) * 2 powi q" .
  have "?x / 2 powi q = of_int (m * 2 ^ nat (k - q))"
    by (simp add: pk)
  then have "roundHalfEven (?x / 2 powi q) = m * 2 ^ nat (k - q)"
    by (simp only: roundHalfEven_of_int)
  then have r: "of_int (roundHalfEven (?x / 2 powi q)) * 2 powi q = ?x"
    by (simp add: pk)
  have "(2::real) powi (k + 53) \<le> 2 powi 1024"
    using k by (intro power_int_increasing) simp_all
  with lt have "\<bar>?x\<bar> < 2 ^ 1024" by simp
  then show ?thesis
    using q(1) r by (simp add: fl64_def Let_def)
qed

lemma fl64_of_int: "\<bar>m\<bar> < 2 ^ 53 \<Longrightarrow> fl64 (of_int m) = Fin (of_int m)"
  using fl64_dyadic [of m 0] by simp


lemma is_doubleD:
  assumes "is_double p"
  obtains q where "quantum p = Some q"
    and "p = of_int (roundHalfEven (p / 2 powi q)) * 2 powi q"
    and "\<bar>p\<bar> < 2 ^ 1024"
proof -
  from assms have f: "fl64 p = Fin p" by (simp add: is_double_def)
  have "quantum p \<noteq> None"
  proof
    assume "quantum p = None"
    with f show False by (simp add: fl64_def inf_of_sign_def split: if_splits)
  qed
  then obtain q where q: "quantum p = Some q" by blast
  let ?y = "of_int (roundHalfEven (p / 2 powi q)) * 2 powi q :: real"
  from f q have "(if 2 ^ 1024 \<le> \<bar>?y\<bar> then inf_of_sign p else Fin ?y) = Fin p"
    by (simp add: fl64_def Let_def)
  then have "?y = p \<and> \<not> 2 ^ 1024 \<le> \<bar>?y\<bar>"
    by (auto simp: inf_of_sign_def split: if_splits)
  then have "p = ?y" "\<bar>p\<bar> < 2 ^ 1024" by auto
  with q that show thesis by blast
qed

lemma fl64_lower:
  assumes p: "is_double p" "0 < p" and v: "p \<le> v"
  shows "fl64 v = PInf \<or> (\<exists>y. fl64 v = Fin y \<and> p \<le> y)"
proof (cases "quantum v")
  case None
  with p v show ?thesis by (simp add: fl64_def inf_of_sign_def)
next
  case (Some q)
  let ?y = "of_int (roundHalfEven (v / 2 powi q)) * 2 powi q :: real"
  have vpos: "0 < v" using p v by simp
  have py: "p \<le> ?y"
  proof -
    from quantum_SomeD [OF Some] have q: "- 1074 \<le> q" "q \<le> 971" "\<bar>v\<bar> < 2 powi (q + 53)"
      and qmin: "\<And>q'. - 1074 \<le> q' \<Longrightarrow> q' < q \<Longrightarrow> 2 powi (q' + 53) \<le> \<bar>v\<bar>"
      by blast+
    have "\<bar>p\<bar> < 2 powi (q + 53)" using p v q(3) by simp
    from quantum_exists [OF q(1) q(2) this] obtain q' where q': "quantum p = Some q'" "q' \<le> q"
      by blast
    from is_doubleD [OF p(1)] q'(1)
    have pm: "p = of_int (roundHalfEven (p / 2 powi q')) * 2 powi q'" by auto
    show ?thesis
    proof (cases "q' = q")
      case True
      let ?M = "roundHalfEven (p / 2 powi q)"
      have "p / 2 powi q = of_int ?M"
        using pm True by (metis nonzero_eq_divide_eq order_less_irrefl zero_less_numeral
            zero_less_power_int)
      moreover have "p / 2 powi q \<le> v / 2 powi q"
        using v by (simp add: divide_right_mono)
      ultimately have "?M \<le> roundHalfEven (v / 2 powi q)"
        by (intro roundHalfEven_ge) simp
      then have "of_int ?M * 2 powi q \<le> ?y"
        by (intro mult_right_mono) simp_all
      with pm True show ?thesis by simp
    next
      case False
      with q'(2) have lt: "q' < q" by simp
      from quantum_SomeD [OF q'(1)] have q'b: "- 1074 \<le> q'" "\<bar>p\<bar> < 2 powi (q' + 53)"
        by blast+
      have "2 powi (q - 1 + 53) \<le> \<bar>v\<bar>"
        by (rule qmin) (use q'b lt in simp_all)
      then have big: "2 powi (q + 52) \<le> v"
        using vpos by (simp add: algebra_simps)
      have "(2::real) powi (q + 52) = 2 powi 52 * 2 powi q"
        by (simp add: power_int_add add.commute)
      with big have "of_int (2 ^ 52) \<le> v / 2 powi q"
        by (simp add: pos_le_divide_eq)
      then have "2 ^ 52 \<le> roundHalfEven (v / 2 powi q)"
        by (rule roundHalfEven_ge)
      then have "of_int (2 ^ 52) * 2 powi q \<le> ?y"
        by (intro mult_right_mono) (simp_all del: of_int_power)
      then have "2 powi (q + 52) \<le> ?y"
        by (simp add: power_int_add add.commute)
      moreover have "(2::real) powi (q' + 53) \<le> 2 powi (q + 52)"
        using lt by (intro power_int_increasing) simp_all
      ultimately show ?thesis
        using q'b(2) p(2) by simp
    qed
  qed
  show ?thesis
  proof (cases "2 ^ 1024 \<le> \<bar>?y\<bar>")
    case True
    with Some vpos show ?thesis by (simp add: fl64_def Let_def inf_of_sign_def)
  next
    case False
    with Some py show ?thesis by (simp add: fl64_def Let_def)
  qed
qed

lemma fl64_upper:
  assumes p: "is_double p" and v: "0 \<le> v" "v \<le> p"
  shows "\<exists>y. fl64 v = Fin y \<and> 0 \<le> y \<and> y \<le> p"
proof -
  from is_doubleD [OF p] obtain q' where q': "quantum p = Some q'"
    and pm: "p = of_int (roundHalfEven (p / 2 powi q')) * 2 powi q'"
    and pb: "\<bar>p\<bar> < 2 ^ 1024" by blast
  from quantum_SomeD [OF q'] have q'b: "- 1074 \<le> q'" "q' \<le> 971" "\<bar>p\<bar> < 2 powi (q' + 53)"
    and q'min: "\<And>k. - 1074 \<le> k \<Longrightarrow> k < q' \<Longrightarrow> 2 powi (k + 53) \<le> \<bar>p\<bar>"
    by blast+
  have "\<bar>v\<bar> < 2 powi (q' + 53)" using v q'b(3) by simp
  from quantum_exists [OF q'b(1) q'b(2) this] obtain q where q: "quantum v = Some q" "q \<le> q'"
    by blast
  from quantum_SomeD [OF q(1)] have qb: "- 1074 \<le> q" "\<bar>v\<bar> < 2 powi (q + 53)" by blast+
  let ?y = "of_int (roundHalfEven (v / 2 powi q)) * 2 powi q :: real"
  have "of_int 0 \<le> v / 2 powi q" using v by simp
  then have "0 \<le> roundHalfEven (v / 2 powi q)" by (rule roundHalfEven_ge)
  then have y0: "0 \<le> ?y" by simp
  have yp: "?y \<le> p"
  proof (cases "q = q'")
    case True
    let ?M = "roundHalfEven (p / 2 powi q)"
    have "p / 2 powi q = of_int ?M"
      using pm True by (metis nonzero_eq_divide_eq order_less_irrefl zero_less_numeral
          zero_less_power_int)
    moreover have "v / 2 powi q \<le> p / 2 powi q"
      using v by (simp add: divide_right_mono)
    ultimately have "roundHalfEven (v / 2 powi q) \<le> ?M"
      by (intro roundHalfEven_le) simp
    then have "?y \<le> of_int ?M * 2 powi q"
      by (intro mult_right_mono) simp_all
    with pm True show ?thesis by simp
  next
    case False
    with q(2) have lt: "q < q'" by simp
    have "v < 2 powi (q + 53)" using qb(2) v by simp
    moreover have "(2::real) powi (q + 53) = 2 powi 53 * 2 powi q"
      by (simp add: power_int_add add.commute)
    ultimately have "v / 2 powi q \<le> of_int (2 ^ 53)"
      by (simp add: pos_divide_le_eq)
    then have "roundHalfEven (v / 2 powi q) \<le> 2 ^ 53"
      by (rule roundHalfEven_le)
    then have "?y \<le> of_int (2 ^ 53) * 2 powi q"
      by (intro mult_right_mono) (simp_all del: of_int_power)
    then have "?y \<le> 2 powi (q + 53)"
      by (simp add: power_int_add add.commute)
    moreover have "(2::real) powi (q + 53) \<le> 2 powi (q' - 1 + 53)"
      using lt by (intro power_int_increasing) simp_all
    moreover have "2 powi (q' - 1 + 53) \<le> \<bar>p\<bar>"
      by (rule q'min) (use qb lt in simp_all)
    ultimately show ?thesis
      using v by simp
  qed
  have "\<bar>?y\<bar> < 2 ^ 1024" using y0 yp pb by simp
  then have "fl64 v = Fin ?y"
    using q(1) by (simp add: fl64_def Let_def)
  with y0 yp show ?thesis by blast
qed

lemma is_double_dyadic:
  "\<bar>m\<bar> < 2 ^ 53 \<Longrightarrow> - 1074 \<le> k \<Longrightarrow> k \<le> 971 \<Longrightarrow> is_double (of_int m * 2 powi k)"
  by (simp add: is_double_def fl64_dyadic)

lemma fl64_zero [simp]: "fl64 0 = Fin 0"
  using fl64_of_int [of 0] by simp

lemma fl64_one [simp]: "fl64 1 = Fin 1"
  using fl64_of_int [of 1] by simp

lemma fl64_numeral: "(numeral n :: int) < 2 ^ 53 \<Longrightarrow> fl64 (numeral n) = Fin (numeral n)"
  using fl64_of_int [of "numeral n"] by simp

lemma is_double_zero [simp]: "is_double 0"
  by (simp add: is_double_def)

lemma is_double_one [simp]: "is_double 1"
  by (simp add: is_double_def)

lemma is_double_numeral: "(numeral n :: int) < 2 ^ 53 \<Longrightarrow> is_double (numeral n)"
  by (simp add: is_double_def fl64_numeral)

lemma fl64_is_double: "is_double x \<Longrightarrow> fl64 x = Fin x"
  by (simp add: is_double_def)

text \<open>
  The value of \<open>fl64\<close> at a given real: the binade fixes the quantum, and an integer
  within one half of the scaled value is the rounded one.
\<close>

lemma quantum_eq:
  assumes "- 1074 \<le> q" "q \<le> 971" "2 powi (q + 52) \<le> \<bar>x\<bar>" "\<bar>x\<bar> < 2 powi (q + 53)"
  shows "quantum x = Some q"
proof -
  from quantum_exists [OF assms(1,2,4)] obtain q' where q': "quantum x = Some q'" "q' \<le> q"
    by blast
  have "q' = q"
  proof (rule ccontr)
    assume "q' \<noteq> q"
    with q'(2) have lt: "q' + 53 \<le> q + 52" by simp
    have "(2::real) powi (q' + 53) \<le> 2 powi (q + 52)"
      by (rule power_int_increasing [OF lt]) simp
    with assms(3) quantum_SomeD(3) [OF q'(1)] show False by simp
  qed
  with q'(1) show ?thesis by simp
qed

lemma roundHalfEven_near:
  assumes "\<bar>r - of_int m\<bar> < 1 / 2"
  shows "roundHalfEven r = m"
proof (cases "of_int m \<le> r")
  case True
  with assms have f: "\<lfloor>r\<rfloor> = m" by (simp add: floor_unique)
  show ?thesis using assms True by (simp add: roundHalfEven_def Let_def f)
next
  case False
  with assms have f: "\<lfloor>r\<rfloor> = m - 1" by (simp add: floor_unique)
  show ?thesis using assms False by (simp add: roundHalfEven_def Let_def f)
qed

lemma fl64_eval:
  assumes q: "- 1074 \<le> q" "q \<le> 971"
    and x: "2 powi (q + 52) \<le> \<bar>x\<bar>" "\<bar>x\<bar> < 2 powi (q + 53)"
    and m: "\<bar>x / 2 powi q - of_int m\<bar> < 1 / 2" "\<bar>m\<bar> < 2 ^ 53"
  shows "fl64 x = Fin (of_int m * 2 powi q)"
proof -
  have qu: "quantum x = Some q" by (rule quantum_eq [OF q x])
  have r: "roundHalfEven (x / 2 powi q) = m" by (rule roundHalfEven_near [OF m(1)])
  have "\<bar>of_int m :: real\<bar> < 2 ^ 53" using m(2) by (simp flip: of_int_abs add: of_int_less_numeral_power_cancel_iff)
  moreover have "(2::real) powi q \<le> 2 powi 971"
    by (rule power_int_increasing [OF q(2)]) simp
  moreover have "(0::real) < 2 powi q" by simp
  ultimately have "\<bar>of_int m :: real\<bar> * 2 powi q < 2 ^ 53 * 2 powi 971"
    by (intro mult_less_le_imp_less) simp_all
  also have "(2::real) ^ 53 * 2 powi 971 = 2 ^ 1024"
    by (simp add: power_int_def flip: power_add)
  finally have lt: "\<bar>of_int m * 2 powi q :: real\<bar> < 2 ^ 1024"
    by (simp add: abs_mult)
  show ?thesis
    unfolding fl64_def qu option.case r Let_def using lt by simp
qed

section \<open>Value projector: theorems\<close>

lemma Math_pow_zero_exponent: "Math_pow base (Fin 0) = Fin 1"
  by (simp add: Math_pow_def)

lemma Math_pow_pos_base: "0 < x \<Longrightarrow> Math_pow (Fin x) (Fin e) = fl64 (x powr e)"
  by (simp add: Math_pow_def)

text \<open>
  C1. For finite base value, increment, user multiplier and adaptive factor and every
  week number, the linear strategy returns \<open>baseValue + increment * (weekNumber - 1) *
  userMultiplier * adaptiveFactor\<close> and the percentage strategy returns \<open>baseValue * (1 +
  increment / 100) ^ ((weekNumber - 1) * userMultiplier * adaptiveFactor)\<close>, each
  evaluated as written, left to right, in Number arithmetic (every operation rounded to
  binary64, \<open>^\<close> being \<open>Math.pow\<close>). Where no operation has to round (every
  intermediate result is a binary64 value, and for the percentage strategy the base of
  the power is positive), the result is the value of the formula over the reals.
\<close>

theorem C1_value_projector_formulas:
  "calculateProgressiveValue (Fin b) w (Fin inc) (Some (Fin m)) (Some ''linear'') (Some (Fin f))
     = js_add (Fin b)
         (js_mul (js_mul (js_mul (Fin inc) (fl64 (of_int (w - 1)))) (Fin m)) (Fin f))
   \<and> calculateProgressiveValue (Fin b) w (Fin inc) (Some (Fin m)) (Some ''percentage'') (Some (Fin f))
     = js_mul (Fin b)
         (Math_pow (js_add (Fin 1) (js_div (Fin inc) (Fin 100)))
            (js_mul (js_mul (fl64 (of_int (w - 1))) (Fin m)) (Fin f)))
   \<and> (is_double (of_int (w - 1)) \<and> is_double (inc * of_int (w - 1))
        \<and> is_double (inc * of_int (w - 1) * m) \<and> is_double (inc * of_int (w - 1) * m * f)
        \<and> is_double (b + inc * of_int (w - 1) * m * f) \<longrightarrow>
        calculateProgressiveValue (Fin b) w (Fin inc) (Some (Fin m)) (Some ''linear'') (Some (Fin f))
          = Fin (b + inc * of_int (w - 1) * m * f))
   \<and> (is_double (of_int (w - 1)) \<and> is_double (inc / 100) \<and> is_double (1 + inc / 100)
        \<and> 0 < 1 + inc / 100
        \<and> is_double (of_int (w - 1) * m) \<and> is_double (of_int (w - 1) * m * f)
        \<and> is_double ((1 + inc / 100) powr (of_int (w - 1) * m * f))
        \<and> is_double (b * (1 + inc / 100) powr (of_int (w - 1) * m * f)) \<longrightarrow>
        calculateProgressiveValue (Fin b) w (Fin inc) (Some (Fin m)) (Some ''percentage'') (Some (Fin f))
          = Fin (b * (1 + inc / 100) powr (of_int (w - 1) * m * f)))"
proof (intro conjI impI)
  show lin: "calculateProgressiveValue (Fin b) w (Fin inc) (Some (Fin m)) (Some ''linear'') (Some (Fin f))
     = js_add (Fin b)
         (js_mul (js_mul (js_mul (Fin inc) (fl64 (of_int (w - 1)))) (Fin m)) (Fin f))"
    by (simp add: calculateProgressiveValue_def)
  show pct: "calculateProgressiveValue (Fin b) w (Fin inc) (Some (Fin m)) (Some ''percentage'') (Some (Fin f))
     = js_mul (Fin b)
         (Math_pow (js_add (Fin 1) (js_div (Fin inc) (Fin 100)))
            (js_mul (js_mul (fl64 (of_int (w - 1))) (Fin m)) (Fin f)))"
    by (simp add: calculateProgressiveValue_def)
  {
    assume e: "is_double (of_int (w - 1)) \<and> is_double (inc * of_int (w - 1))
        \<and> is_double (inc * of_int (w - 1) * m) \<and> is_double (inc * of_int (w - 1) * m * f)
        \<and> is_double (b + inc * of_int (w - 1) * m * f)"
    have "js_add (Fin b)
         (js_mul (js_mul (js_mul (Fin inc) (fl64 (of_int (w - 1)))) (Fin m)) (Fin f))
        = Fin (b + inc * of_int (w - 1) * m * f)"
      using e by (simp add: fl64_is_double)
    with lin show "calculateProgressiveValue (Fin b) w (Fin inc) (Some (Fin m)) (Some ''linear'') (Some (Fin f))
          = Fin (b + inc * of_int (w - 1) * m * f)"
      by simp
  }
  {
    assume e: "is_double (of_int (w - 1)) \<and> is_double (inc / 100) \<and> is_double (1 + inc / 100)
        \<and> 0 < 1 + inc / 100
        \<and> is_double (of_int (w - 1) * m) \<and> is_double (of_int (w - 1) * m * f)
        \<and> is_double ((1 + inc / 100) powr (of_int (w - 1) * m * f))
        \<and> is_double (b * (1 + inc / 100) powr (of_int (w - 1) * m * f))"
    have base: "js_add (Fin 1) (js_div (Fin inc) (Fin 100)) = Fin (1 + inc / 100)"
      using e by (simp add: fl64_is_double)
    have expo: "js_mul (js_mul (fl64 (of_int (w - 1))) (Fin m)) (Fin f)
        = Fin (of_int (w - 1) * m * f)"
      using e by (simp add: fl64_is_double)
    have "js_mul (Fin b) (Math_pow (Fin (1 + inc / 100)) (Fin (of_int (w - 1) * m * f)))
        = Fin (b * (1 + inc / 100) powr (of_int (w - 1) * m * f))"
      using e by (simp add: Math_pow_pos_base fl64_is_double)
    with pct base expo show "calculateProgressiveValue (Fin b) w (Fin inc) (Some (Fin m)) (Some ''percentage'') (Some (Fin f))
          = Fin (b * (1 + inc / 100) powr (of_int (w - 1) * m * f))"
      by simp
  }
qed

theorem C1_value_projector_formulas_witness:
  "calculateProgressiveValue (Fin 10) 3 (Fin 5) (Some (Fin 1)) (Some ''linear'') (Some (Fin 1))
     = Fin 20
   \<and> calculateProgressiveValue (Fin 10) 3 (Fin 100) (Some (Fin 1)) (Some ''percentage'') (Some (Fin 1))
     = Fin 40
   \<and> calculateProgressiveValue (Fin (2 ^ 1023)) 3 (Fin (2 ^ 1023)) (Some (Fin 1)) (Some ''linear'')
        (Some (Fin 1))
     = PInf"
proof -
  have lin: "calculateProgressiveValue (Fin 10) 3 (Fin 5) (Some (Fin 1)) (Some ''linear'') (Some (Fin 1))
     = Fin 20"
    using C1_value_projector_formulas [of 10 3 5 1 1, THEN conjunct2, THEN conjunct2, THEN conjunct1]
    by (simp add: is_double_numeral)
  have pct: "calculateProgressiveValue (Fin 10) 3 (Fin 100) (Some (Fin 1)) (Some ''percentage'') (Some (Fin 1))
     = Fin 40"
    using C1_value_projector_formulas [of 10 3 100 1 1, THEN conjunct2, THEN conjunct2, THEN conjunct2]
    by (simp add: is_double_numeral)
  have "fl64 (2 ^ 1023 * 2) = PInf"
    using fl64_overflow [of "2 ^ 1023 * 2"] by (simp add: inf_of_sign_def)
  then have ovf: "calculateProgressiveValue (Fin (2 ^ 1023)) 3 (Fin (2 ^ 1023)) (Some (Fin 1))
        (Some ''linear'') (Some (Fin 1)) = PInf"
    using C1_value_projector_formulas [of "2 ^ 1023" 3 "2 ^ 1023" 1 1, THEN conjunct1]
    by (simp add: fl64_numeral inf_of_sign_def)
  show ?thesis using lin pct ovf by simp
qed

text \<open>
  C7. Week-1 identity: at \<open>weekNumber = 1\<close> the projector returns the finite base value
  (a binary64 value \<open>v\<close>) unchanged, for every finite increment, multiplier and adaptive
  factor and every strategy (any string, or none).
\<close>

theorem C7_week_one_identity:
  "is_double v \<Longrightarrow>
   calculateProgressiveValue (Fin v) 1 (Fin inc) (Some (Fin m)) strat (Some (Fin f)) = Fin v"
proof (cases "strat = Some ''percentage''")
  case True
  assume v: "is_double v"
  have "js_mul (js_mul (fl64 (of_int (1 - 1))) (Fin m)) (Fin f) = Fin 0"
    by simp
  then have "calculateProgressiveValue (Fin v) 1 (Fin inc) (Some (Fin m)) strat (Some (Fin f))
      = js_mul (Fin v) (Math_pow (js_add (Fin 1) (js_div (Fin inc) (Fin 100))) (Fin 0))"
    using True by (simp add: calculateProgressiveValue_def)
  then show ?thesis
    using v by (simp add: Math_pow_zero_exponent fl64_is_double)
next
  case False
  assume v: "is_double v"
  from False have "(case strat of None \<Rightarrow> ''linear'' | Some s \<Rightarrow> s) \<noteq> ''percentage''"
    by (cases strat) simp_all
  then have "calculateProgressiveValue (Fin v) 1 (Fin inc) (Some (Fin m)) strat (Some (Fin f))
      = js_add (Fin v) (js_mul (js_mul (js_mul (Fin inc) (fl64 (of_int (1 - 1)))) (Fin m)) (Fin f))"
    by (simp add: calculateProgressiveValue_def)
  then show ?thesis
    using v by (simp add: fl64_is_double)
qed

theorem C7_week_one_identity_witness:
  "calculateProgressiveValue (Fin 10) 1 (Fin 2) (Some (Fin 2)) (Some ''percentage'') (Some (Fin 1))
     = Fin 10
   \<and> calculateProgressiveValue (Fin 10) 1 (Fin 2) (Some (Fin 2)) (Some ''linear'') (Some (Fin 1))
     = Fin 10"
proof -
  have d: "is_double 10" by (simp add: is_double_numeral)
  show ?thesis
    using C7_week_one_identity [OF d, of 2 2 "Some ''percentage''" 1]
      C7_week_one_identity [OF d, of 2 2 "Some ''linear''" 1]
    by simp
qed

section \<open>Adherence analyzer: theorems\<close>

lemma recentWorkouts_qualifying_spec: "recentWorkouts h w = qualifying_spec h w"
  unfolding recentWorkouts_def qualifying_spec_def inWindow_def
  by (rule filter_cong) (auto split: option.splits)

lemma calculateAdaptiveFactor_length:
  "length (recentWorkouts h w) = length (recentWorkouts h' w) \<Longrightarrow>
   calculateAdaptiveFactor h w = calculateAdaptiveFactor h' w"
  by (simp add: calculateAdaptiveFactor_def)

lemma inWindow_hasWeekNumber: "inWindow w e \<Longrightarrow> hasWeekNumber e"
  by (auto simp: inWindow_def hasWeekNumber_def split: option.splits)

lemma recentWorkouts_filter:
  "recentWorkouts (filter P h) w = filter (\<lambda>e. P e \<and> inWindow w e) h"
  by (simp add: recentWorkouts_def)

lemma adaptiveTier_Fin:
  "adaptiveTier (Fin r) =
     (if 0.9 \<le> r then Fin 1.1 else if 0.7 \<le> r then Fin 1
      else if 0.5 \<le> r then Fin 0.95 else Fin 0.9)"
  by (simp add: adaptiveTier_def)


lemma fl64_half: "fl64 (1 / 2) = Fin (1 / 2)"
  using fl64_dyadic [of 1 "- 1"] by simp

lemma adaptiveTier_PInf: "adaptiveTier PInf = Fin 1.1"
  by (simp add: adaptiveTier_def)

text \<open>
  Rounding the completion rate does not move it across a threshold: a rate is a multiple
  of \<open>1 / 24\<close> (the divisor is 4, 8 or 12), and between each threshold and the nearest
  such multiple on either side there is a binary64 value, which rounding cannot cross.
\<close>

lemma adaptiveTier_round:
  assumes "0 \<le> j"
  shows "adaptiveTier (fl64 (of_int j / 24)) = adaptiveTier (Fin (of_int j / 24))"
proof -
  let ?x = "of_int j / 24 :: real"
  have x0: "0 \<le> ?x" using assms by simp
  have d1: "is_double (29 / 32)" using is_double_dyadic [of 29 "- 5"] by simp
  have d2: "is_double (7 / 8)" using is_double_dyadic [of 7 "- 3"] by simp
  have d3: "is_double (45 / 64)" using is_double_dyadic [of 45 "- 6"] by simp
  have d4: "is_double (11 / 16)" using is_double_dyadic [of 11 "- 4"] by simp
  have d5: "is_double (1 / 2)" using is_double_dyadic [of 1 "- 1"] by simp
  have d6: "is_double (15 / 32)" using is_double_dyadic [of 15 "- 5"] by simp
  consider "22 \<le> j" | "17 \<le> j \<and> j \<le> 21" | "12 \<le> j \<and> j \<le> 16" | "j \<le> 11"
    by linarith
  then show ?thesis
  proof cases
    case 1
    then have "(22::real) \<le> of_int j" by simp
    then have x: "29 / 32 \<le> ?x" by simp
    from fl64_lower [OF d1 _ x]
    have "fl64 ?x = PInf \<or> (\<exists>y. fl64 ?x = Fin y \<and> 29 / 32 \<le> y)" by simp
    then have "adaptiveTier (fl64 ?x) = Fin 1.1"
      by (auto simp: adaptiveTier_PInf adaptiveTier_Fin)
    moreover have "adaptiveTier (Fin ?x) = Fin 1.1"
      using x by (simp add: adaptiveTier_Fin)
    ultimately show ?thesis by simp
  next
    case 2
    then have "(17::real) \<le> of_int j" "of_int j \<le> (21::real)" by simp_all
    then have x: "45 / 64 \<le> ?x" "?x \<le> 7 / 8" by simp_all
    from fl64_upper [OF d2 x0 x(2)] obtain y where y: "fl64 ?x = Fin y" "y \<le> 7 / 8" by blast
    from fl64_lower [OF d3 _ x(1)] y(1) have "45 / 64 \<le> y" by simp
    with y have "adaptiveTier (fl64 ?x) = Fin 1"
      by (simp add: adaptiveTier_Fin)
    moreover have "adaptiveTier (Fin ?x) = Fin 1"
      using x by (simp add: adaptiveTier_Fin)
    ultimately show ?thesis by simp
  next
    case 3
    then have "(12::real) \<le> of_int j" "of_int j \<le> (16::real)" by simp_all
    then have x: "1 / 2 \<le> ?x" "?x \<le> 11 / 16" by simp_all
    from fl64_upper [OF d4 x0 x(2)] obtain y where y: "fl64 ?x = Fin y" "y \<le> 11 / 16" by blast
    from fl64_lower [OF d5 _ x(1)] y(1) have "1 / 2 \<le> y" by simp
    with y have "adaptiveTier (fl64 ?x) = Fin 0.95"
      by (simp add: adaptiveTier_Fin)
    moreover have "adaptiveTier (Fin ?x) = Fin 0.95"
      using x by (simp add: adaptiveTier_Fin)
    ultimately show ?thesis by simp
  next
    case 4
    then have "of_int j \<le> (11::real)" by simp
    then have x: "?x \<le> 15 / 32" by simp
    from fl64_upper [OF d6 x0 x] obtain y where y: "fl64 ?x = Fin y" "y \<le> 15 / 32" by blast
    then have "adaptiveTier (fl64 ?x) = Fin 0.9"
      by (simp add: adaptiveTier_Fin)
    moreover have "adaptiveTier (Fin ?x) = Fin 0.9"
      using x by (simp add: adaptiveTier_Fin)
    ultimately show ?thesis by simp
  qed
qed

lemma completionRate_tier:
  assumes "2 \<le> w"
  shows "adaptiveTier (completionRate n w)
           = adaptiveTier (Fin (of_nat n / of_int (min 3 (w - 1) * 4)))"
proof -
  consider "w = 2" | "w = 3" | "4 \<le> w" using assms by linarith
  then show ?thesis
  proof cases
    case 1
    have "real n / 4 = of_int (int n * 6) / 24" by simp
    then show ?thesis
      using 1 adaptiveTier_round [of "int n * 6"] by (simp add: completionRate_def)
  next
    case 2
    have "real n / 8 = of_int (int n * 3) / 24" by simp
    then show ?thesis
      using 2 adaptiveTier_round [of "int n * 3"] by (simp add: completionRate_def)
  next
    case 3
    have "real n / 12 = of_int (int n * 2) / 24" by simp
    then show ?thesis
      using 3 adaptiveTier_round [of "int n * 2"] by (simp add: completionRate_def)
  qed
qed

text \<open>
  The thresholds of the source are the binary64 values of the literals \<open>0.9\<close>,
  \<open>0.7\<close> and \<open>0.5\<close>. On a completion rate each comparison has the same outcome
  with the binary64 value as with the decimal itself.
\<close>

lemma adaptiveTier_literals:
  assumes "0 \<le> j"
  shows "js_ge (fl64 (of_int j / 24)) (fl64 0.9) = js_ge (fl64 (of_int j / 24)) (Fin 0.9)"
    and "js_ge (fl64 (of_int j / 24)) (fl64 0.7) = js_ge (fl64 (of_int j / 24)) (Fin 0.7)"
    and "js_ge (fl64 (of_int j / 24)) (fl64 0.5) = js_ge (fl64 (of_int j / 24)) (Fin 0.5)"
proof -
  let ?x = "of_int j / 24 :: real"
  have x0: "0 \<le> ?x" using assms by simp
  have d1: "is_double (29 / 32)" using is_double_dyadic [of 29 "- 5"] by simp
  have d2: "is_double (57 / 64)" using is_double_dyadic [of 57 "- 6"] by simp
  have d3: "is_double (7 / 8)" using is_double_dyadic [of 7 "- 3"] by simp
  have d4: "is_double (45 / 64)" using is_double_dyadic [of 45 "- 6"] by simp
  have d5: "is_double (89 / 128)" using is_double_dyadic [of 89 "- 7"] by simp
  have d6: "is_double (11 / 16)" using is_double_dyadic [of 11 "- 4"] by simp
  from fl64_upper [OF d1, of "0.9"] obtain c where c: "fl64 0.9 = Fin c" "c \<le> 29 / 32"
    by auto
  from fl64_lower [OF d2, of "0.9"] c(1) have c': "57 / 64 \<le> c" by simp
  from fl64_upper [OF d4, of "0.7"] obtain e where e: "fl64 0.7 = Fin e" "e \<le> 45 / 64"
    by auto
  from fl64_lower [OF d5, of "0.7"] e(1) have e': "89 / 128 \<le> e" by simp
  show "js_ge (fl64 ?x) (fl64 0.9) = js_ge (fl64 ?x) (Fin 0.9)"
  proof (cases "22 \<le> j")
    case True
    then have "(22::real) \<le> of_int j" by simp
    then have x: "29 / 32 \<le> ?x" by simp
    from fl64_lower [OF d1 _ x]
    have "fl64 ?x = PInf \<or> (\<exists>y. fl64 ?x = Fin y \<and> 29 / 32 \<le> y)" by simp
    then show ?thesis using c by auto
  next
    case False
    then have "of_int j \<le> (21::real)" by simp
    then have x: "?x \<le> 7 / 8" by simp
    from fl64_upper [OF d3 x0 x] obtain y where y: "fl64 ?x = Fin y" "y \<le> 7 / 8" by blast
    then show ?thesis using c c' by simp
  qed
  show "js_ge (fl64 ?x) (fl64 0.7) = js_ge (fl64 ?x) (Fin 0.7)"
  proof (cases "17 \<le> j")
    case True
    then have "(17::real) \<le> of_int j" by simp
    then have x: "45 / 64 \<le> ?x" by simp
    from fl64_lower [OF d4 _ x]
    have "fl64 ?x = PInf \<or> (\<exists>y. fl64 ?x = Fin y \<and> 45 / 64 \<le> y)" by simp
    then show ?thesis using e by auto
  next
    case False
    then have "of_int j \<le> (16::real)" by simp
    then have x: "?x \<le> 11 / 16" by simp
    from fl64_upper [OF d6 x0 x] obtain y where y: "fl64 ?x = Fin y" "y \<le> 11 / 16" by blast
    then show ?thesis using e e' by simp
  qed
  show "js_ge (fl64 ?x) (fl64 0.5) = js_ge (fl64 ?x) (Fin 0.5)"
    by (simp add: fl64_half)
qed



text \<open>
  C5. The entries the analyzer counts are those whose week number \<open>n\<close> satisfies
  \<open>currentWeek - 3 \<le> n < currentWeek\<close>. With fewer than three of them the result is
  1.0; otherwise it is the tier of the count divided by \<open>min(3, currentWeek - 1) * 4\<close>
  (the Number division; from \<open>currentWeek = 2\<close> on the divisor is not zero and it is the
  real quotient).
\<close>

theorem C5_window_and_insufficient_data:
  "recentWorkouts h w = qualifying_spec h w
   \<and> (length (qualifying_spec h w) < 3 \<longrightarrow> calculateAdaptiveFactor h w = Fin 1)
   \<and> (3 \<le> length (qualifying_spec h w) \<longrightarrow>
        calculateAdaptiveFactor h w =
          adaptiveTier (js_div (Fin (of_nat (length (qualifying_spec h w))))
                               (Fin (of_int (min 3 (w - 1) * 4)))))
   \<and> (3 \<le> length (qualifying_spec h w) \<and> 2 \<le> w \<longrightarrow>
        calculateAdaptiveFactor h w =
          adaptiveTier (Fin (of_nat (length (qualifying_spec h w)) / of_int (min 3 (w - 1) * 4))))"
proof -
  have q: "recentWorkouts h w = qualifying_spec h w"
    by (rule recentWorkouts_qualifying_spec)
  have small: "length (recentWorkouts h w) < 3 \<Longrightarrow> calculateAdaptiveFactor h w = Fin 1"
    by (simp add: calculateAdaptiveFactor_def)
  have rate: "3 \<le> length (recentWorkouts h w) \<Longrightarrow>
      calculateAdaptiveFactor h w =
        adaptiveTier (js_div (Fin (of_nat (length (recentWorkouts h w))))
                             (Fin (of_int (min 3 (w - 1) * 4))))"
    by (simp add: calculateAdaptiveFactor_def completionRate_def Let_def)
  have quot: "3 \<le> length (recentWorkouts h w) \<Longrightarrow> 2 \<le> w \<Longrightarrow>
      calculateAdaptiveFactor h w =
        adaptiveTier (Fin (of_nat (length (recentWorkouts h w)) / of_int (min 3 (w - 1) * 4)))"
    by (simp add: calculateAdaptiveFactor_def completionRate_tier)
  show ?thesis
    using small rate quot by (simp add: q [symmetric])
qed

theorem C5_window_and_insufficient_data_witness:
  "length (qualifying_spec
       [\<lparr>weekNumber = Some 2, completedAt = Some 10\<rparr>, \<lparr>weekNumber = Some 3, completedAt = Some 20\<rparr>,
        \<lparr>weekNumber = Some 4, completedAt = Some 30\<rparr>, \<lparr>weekNumber = None, completedAt = Some 40\<rparr>] 4) < 3
   \<and> calculateAdaptiveFactor
       [\<lparr>weekNumber = Some 2, completedAt = Some 10\<rparr>, \<lparr>weekNumber = Some 3, completedAt = Some 20\<rparr>,
        \<lparr>weekNumber = Some 4, completedAt = Some 30\<rparr>, \<lparr>weekNumber = None, completedAt = Some 40\<rparr>] 4 = Fin 1
   \<and> 3 \<le> length (qualifying_spec
       [\<lparr>weekNumber = Some 1, completedAt = Some 10\<rparr>, \<lparr>weekNumber = Some 1, completedAt = Some 20\<rparr>,
        \<lparr>weekNumber = Some 1, completedAt = Some 30\<rparr>] 2)
   \<and> (2::int) \<le> 2
   \<and> calculateAdaptiveFactor
       [\<lparr>weekNumber = Some 1, completedAt = Some 10\<rparr>, \<lparr>weekNumber = Some 1, completedAt = Some 20\<rparr>,
        \<lparr>weekNumber = Some 1, completedAt = Some 30\<rparr>] 2 = Fin 1"
proof -
  let ?h1 = "[\<lparr>weekNumber = Some 2, completedAt = Some 10\<rparr>, \<lparr>weekNumber = Some 3, completedAt = Some 20\<rparr>,
        \<lparr>weekNumber = Some 4, completedAt = Some 30\<rparr>, \<lparr>weekNumber = None, completedAt = Some (40::int)\<rparr>]"
  let ?h2 = "[\<lparr>weekNumber = Some 1, completedAt = Some 10\<rparr>, \<lparr>weekNumber = Some 1, completedAt = Some 20\<rparr>,
        \<lparr>weekNumber = Some 1, completedAt = Some (30::int)\<rparr>]"
  have l1: "length (qualifying_spec ?h1 4) = 2"
    by (simp add: qualifying_spec_def image_iff)
  have l2: "length (qualifying_spec ?h2 2) = 3"
    by (simp add: qualifying_spec_def image_iff)
  have t1: "calculateAdaptiveFactor ?h1 4 = Fin 1"
    using C5_window_and_insufficient_data [of ?h1 4] l1 by simp
  have t2: "calculateAdaptiveFactor ?h2 2 = Fin 1"
    using C5_window_and_insufficient_data [of ?h2 2, THEN conjunct2, THEN conjunct2, THEN conjunct2] l2
    by (simp add: adaptiveTier_Fin)
  show ?thesis using l1 l2 t1 t2 by simp
qed

text \<open>
  C9. At \<open>currentWeek = 1\<close>, when every entry carries a week number of at least 1, no
  entry is in the window, so the analyzer returns 1.0 from the insufficient-data branch
  and the division by \<open>expectedWorkouts = 0\<close> is not reached.
\<close>

theorem C9_week_one_defaults:
  "(\<forall>e \<in> set h. \<exists>n. weekNumber e = Some n \<and> 1 \<le> n) \<Longrightarrow>
   recentWorkouts h 1 = [] \<and> calculateAdaptiveFactor h 1 = Fin 1"
proof -
  assume a: "\<forall>e \<in> set h. \<exists>n. weekNumber e = Some n \<and> 1 \<le> n"
  have "\<forall>e \<in> set h. \<not> inWindow 1 e"
    using a by (fastforce simp: inWindow_def)
  then have r: "recentWorkouts h 1 = []"
    by (simp add: recentWorkouts_def)
  then show ?thesis
    by (simp add: calculateAdaptiveFactor_def)
qed

theorem C9_week_one_defaults_witness:
  "recentWorkouts
        [\<lparr>weekNumber = Some 1, completedAt = Some 10\<rparr>, \<lparr>weekNumber = Some 1, completedAt = Some 20\<rparr>,
         \<lparr>weekNumber = Some 2, completedAt = Some 30\<rparr>, \<lparr>weekNumber = Some 12, completedAt = None\<rparr>] 1
      = []
   \<and> calculateAdaptiveFactor
        [\<lparr>weekNumber = Some 1, completedAt = Some 10\<rparr>, \<lparr>weekNumber = Some 1, completedAt = Some 20\<rparr>,
         \<lparr>weekNumber = Some 2, completedAt = Some 30\<rparr>, \<lparr>weekNumber = Some 12, completedAt = None\<rparr>] 1
      = Fin 1"
proof -
  let ?h = "[\<lparr>weekNumber = Some 1, completedAt = Some 10\<rparr>, \<lparr>weekNumber = Some 1, completedAt = Some 20\<rparr>,
        \<lparr>weekNumber = Some 2, completedAt = Some 30\<rparr>, \<lparr>weekNumber = Some 12, completedAt = (None::int option)\<rparr>]"
  have p: "\<forall>e \<in> set ?h. \<exists>n. weekNumber e = Some n \<and> 1 \<le> n"
    by simp
  show ?thesis by (rule C9_week_one_defaults [OF p])
qed

lemma recentWorkouts_bothPresent:
  "\<forall>e \<in> set h. completedAt e \<noteq> None \<Longrightarrow>
   recentWorkouts (filter bothPresent h) w = recentWorkouts h w"
  unfolding recentWorkouts_filter unfolding recentWorkouts_def
  by (rule filter_cong)
     (auto simp: bothPresent_def hasWeekNumber_def dest: inWindow_hasWeekNumber)

lemma loadHistory_completedAt: "e \<in> set (loadHistory p docs) \<Longrightarrow> completedAt e \<noteq> None"
  by (simp add: loadHistory_def)

lemma recentWorkouts_loadHistory:
  "length (recentWorkouts (loadHistory p docs) w)
     = length (filter (\<lambda>e. (profileId e = Some p \<and> completedAt e \<noteq> None) \<and> inWindow w e) docs)"
  by (simp add: loadHistory_def recentWorkouts_def filter_sort)

text \<open>
  C6. Entries lacking a \<open>weekNumber\<close> or a \<open>completedAt\<close> are excluded from adherence
  analysis. The analysis of the stored documents (the listener, then the analyzer) gives
  what it gives on the documents that have both fields. Every history the analyzer
  receives comes from the listener, so each of its entries has a \<open>completedAt\<close>; on
  every such history the analyzer returns the same result as on the sub-history of the
  entries with both fields present. The analyzer itself drops the entries without a
  \<open>weekNumber\<close>, on any history.
\<close>

theorem C6_lacking_fields_excluded:
  "calculateAdaptiveFactor (loadHistory p docs) w
     = calculateAdaptiveFactor (loadHistory p (filter bothPresent docs)) w
   \<and> (\<forall>e \<in> set (loadHistory p docs). completedAt e \<noteq> None)
   \<and> ((\<forall>e \<in> set h. completedAt e \<noteq> None) \<longrightarrow>
        calculateAdaptiveFactor h w = calculateAdaptiveFactor (filter bothPresent h) w)
   \<and> calculateAdaptiveFactor h w = calculateAdaptiveFactor (filter hasWeekNumber h) w"
proof (intro conjI impI)
  have "filter (\<lambda>e. (profileId e = Some p \<and> completedAt e \<noteq> None) \<and> inWindow w e)
          (filter bothPresent docs)
        = filter (\<lambda>e. (profileId e = Some p \<and> completedAt e \<noteq> None) \<and> inWindow w e) docs"
    unfolding filter_filter
    by (rule filter_cong)
       (auto simp: bothPresent_def hasWeekNumber_def dest: inWindow_hasWeekNumber)
  then have "length (recentWorkouts (loadHistory p docs) w)
        = length (recentWorkouts (loadHistory p (filter bothPresent docs)) w)"
    by (simp only: recentWorkouts_loadHistory)
  then show "calculateAdaptiveFactor (loadHistory p docs) w
        = calculateAdaptiveFactor (loadHistory p (filter bothPresent docs)) w"
    by (rule calculateAdaptiveFactor_length)
next
  show "\<forall>e \<in> set (loadHistory p docs). completedAt e \<noteq> None"
    by (simp add: loadHistory_completedAt)
next
  assume "\<forall>e \<in> set h. completedAt e \<noteq> None"
  then have "recentWorkouts (filter bothPresent h) w = recentWorkouts h w"
    by (rule recentWorkouts_bothPresent)
  then show "calculateAdaptiveFactor h w = calculateAdaptiveFactor (filter bothPresent h) w"
    by (simp add: calculateAdaptiveFactor_def)
next
  have "recentWorkouts (filter hasWeekNumber h) w = recentWorkouts h w"
    unfolding recentWorkouts_filter unfolding recentWorkouts_def
    by (rule filter_cong) (auto dest: inWindow_hasWeekNumber)
  then show "calculateAdaptiveFactor h w = calculateAdaptiveFactor (filter hasWeekNumber h) w"
    by (simp add: calculateAdaptiveFactor_def)
qed

theorem C6_lacking_fields_excluded_witness:
  "calculateAdaptiveFactor
     [\<lparr>weekNumber = Some 1, completedAt = Some 10\<rparr>, \<lparr>weekNumber = Some 1, completedAt = Some 20\<rparr>,
      \<lparr>weekNumber = None, completedAt = Some 30\<rparr>, \<lparr>weekNumber = Some 1, completedAt = Some 40\<rparr>,
      \<lparr>weekNumber = Some 1, completedAt = Some 50\<rparr>] 2
   = calculateAdaptiveFactor
     (filter bothPresent
       [\<lparr>weekNumber = Some 1, completedAt = Some 10\<rparr>, \<lparr>weekNumber = Some 1, completedAt = Some 20\<rparr>,
        \<lparr>weekNumber = None, completedAt = Some 30\<rparr>, \<lparr>weekNumber = Some 1, completedAt = Some 40\<rparr>,
        \<lparr>weekNumber = Some 1, completedAt = Some 50\<rparr>]) 2
   \<and> calculateAdaptiveFactor
     (loadHistory ''p1''
       [\<lparr>weekNumber = Some 1, completedAt = Some 10, profileId = Some ''p1''\<rparr>,
        \<lparr>weekNumber = Some 1, completedAt = None, profileId = Some ''p1''\<rparr>,
        \<lparr>weekNumber = Some 1, completedAt = Some 30, profileId = Some ''p2''\<rparr>,
        \<lparr>weekNumber = None, completedAt = Some 40, profileId = Some ''p1''\<rparr>,
        \<lparr>weekNumber = Some 1, completedAt = Some 50, profileId = Some ''p1''\<rparr>,
        \<lparr>weekNumber = Some 1, completedAt = Some 60, profileId = Some ''p1''\<rparr>]) 2
   = calculateAdaptiveFactor
     (loadHistory ''p1''
       (filter bothPresent
         [\<lparr>weekNumber = Some 1, completedAt = Some 10, profileId = Some ''p1''\<rparr>,
          \<lparr>weekNumber = Some 1, completedAt = None, profileId = Some ''p1''\<rparr>,
          \<lparr>weekNumber = Some 1, completedAt = Some 30, profileId = Some ''p2''\<rparr>,
          \<lparr>weekNumber = None, completedAt = Some 40, profileId = Some ''p1''\<rparr>,
          \<lparr>weekNumber = Some 1, completedAt = Some 50, profileId = Some ''p1''\<rparr>,
          \<lparr>weekNumber = Some 1, completedAt = Some 60, profileId = Some ''p1''\<rparr>])) 2"
proof -
  let ?h = "[\<lparr>weekNumber = Some 1, completedAt = Some 10\<rparr>, \<lparr>weekNumber = Some 1, completedAt = Some 20\<rparr>,
      \<lparr>weekNumber = None, completedAt = Some 30\<rparr>, \<lparr>weekNumber = Some 1, completedAt = Some 40\<rparr>,
      \<lparr>weekNumber = Some 1, completedAt = Some (50::int)\<rparr>]"
  let ?docs = "[\<lparr>weekNumber = Some 1, completedAt = Some 10, profileId = Some ''p1''\<rparr>,
        \<lparr>weekNumber = Some 1, completedAt = None, profileId = Some ''p1''\<rparr>,
        \<lparr>weekNumber = Some 1, completedAt = Some 30, profileId = Some ''p2''\<rparr>,
        \<lparr>weekNumber = None, completedAt = Some 40, profileId = Some ''p1''\<rparr>,
        \<lparr>weekNumber = Some 1, completedAt = Some 50, profileId = Some ''p1''\<rparr>,
        \<lparr>weekNumber = Some 1, completedAt = Some 60, profileId = Some ''p1''\<rparr>]"
  note t = C6_lacking_fields_excluded [of "''p1''" ?docs 2 ?h]
  have c: "\<forall>e \<in> set ?h. completedAt e \<noteq> None"
    by simp
  show ?thesis
    using t c by blast
qed

section \<open>Schedule clock: theorems\<close>

lemma planWeekOfDays_formula:
  "0 \<le> d \<Longrightarrow> 1 \<le> n \<Longrightarrow> planWeekOfDays d n = Some ((d div 7) mod n + 1)"
proof -
  assume d: "0 \<le> d" and n: "1 \<le> n"
  have "0 \<le> d div 7" using d by (simp add: pos_imp_zdiv_nonneg_iff)
  then have "sgn (d div 7) * (\<bar>d div 7\<bar> mod \<bar>n\<bar>) = (d div 7) mod n"
    using n by (cases "d div 7 = 0") (simp_all add: sgn_if)
  then show ?thesis using n by (simp add: planWeekOfDays_def js_rem_def)
qed

text \<open>
  Against C3 as stated: with 12 weeks and \<open>diffDays = 83\<close> the week is 12, not 1
  (\<open>floor (83 / 7) = 11\<close>).
\<close>

theorem C3_day_83_counterexample: "planWeekOfDays 83 12 \<noteq> Some 1"
  by (simp add: planWeekOfDays_def js_rem_def)

text \<open>
  C3, amended. For \<open>durationWeeks = 12\<close> the week number at \<open>diffDays = 83\<close> is 12
  and at \<open>diffDays = 84\<close> it is 1 (the schedule wraps); in general, for a duration of
  at least one week, the week number is \<open>(floor (diffDays / 7) mod durationWeeks) + 1\<close>.
\<close>

theorem C3_schedule_clock_wraps:
  "planWeekOfDays 83 12 = Some 12
   \<and> planWeekOfDays 84 12 = Some 1
   \<and> (0 \<le> d \<and> 1 \<le> n \<longrightarrow> planWeekOfDays d n = Some ((d div 7) mod n + 1))
   \<and> (1 \<le> n \<longrightarrow> currentPlanWeek today start n
          = Some (((\<bar>today - start\<bar> div 86400000) div 7) mod n + 1))"
proof -
  have a: "planWeekOfDays 83 12 = Some 12" "planWeekOfDays 84 12 = Some 1"
    by (simp_all add: planWeekOfDays_def js_rem_def)
  have b: "0 \<le> \<bar>today - start\<bar> div 86400000"
    by (simp add: pos_imp_zdiv_nonneg_iff)
  show ?thesis
    using a b by (simp add: planWeekOfDays_formula currentPlanWeek_def)
qed

theorem C3_schedule_clock_wraps_witness:
  "(0::int) \<le> 90 \<and> (1::int) \<le> 12 \<and> planWeekOfDays 90 12 = Some 1
   \<and> currentPlanWeek 7776000000 0 12 = Some 1"
  using C3_schedule_clock_wraps [of 90 12 7776000000 0] by simp

section \<open>Number to string: lemmas\<close>

lemma find_upto_le:
  assumes "P k" "a \<le> k" "k \<le> b"
  obtains q where "find P [a..b] = Some q" "q \<le> k"
proof -
  have "find P [a..b] \<noteq> None"
    unfolding find_upto_None using assms by blast
  then obtain q where q: "find P [a..b] = Some q" by blast
  have "q \<le> k"
  proof (rule ccontr)
    assume "\<not> q \<le> k"
    then have "k < q" by simp
    from find_upto_Some(4) [OF q assms(2) this] assms(1) show False by simp
  qed
  with q that show thesis by blast
qed

lemma find_upt_Some:
  assumes "find P [a..<b] = Some k"
  shows "a \<le> k" and "k < b" and "P k"
proof -
  from assms obtain i where i: "i < length [a..<b]" "P ([a..<b] ! i)" "k = [a..<b] ! i"
    unfolding find_Some_iff by blast
  from i(1) have "a + i < b" by simp
  then have "[a..<b] ! i = a + i" by simp
  with i \<open>a + i < b\<close> show "a \<le> k" "k < b" "P k" by simp_all
qed

lemma find_upt_le:
  assumes "P d" "a \<le> d" "d < b"
  obtains k where "find P [a..<b] = Some k" "k \<le> d"
proof -
  have "d \<in> set [a..<b]" using assms by simp
  with assms(1) have "find P [a..<b] \<noteq> None"
    unfolding find_None_iff by blast
  then obtain k where k: "find P [a..<b] = Some k" by blast
  then obtain i where i: "i < length [a..<b]" "k = [a..<b] ! i" "\<forall>j<i. \<not> P ([a..<b] ! j)"
    unfolding find_Some_iff by blast
  from i(1) have ib: "a + i < b" by simp
  then have ki: "k = a + i" using i(2) by simp
  have "k \<le> d"
  proof (rule ccontr)
    assume "\<not> k \<le> d"
    then have j: "d - a < i" using ki assms(2) by simp
    then have "[a..<b] ! (d - a) = d" using ib assms(2) by simp
    with i(3) j assms(1) show False by metis
  qed
  with k that show thesis by blast
qed

lemma decimalExponent_range:
  assumes "10 powi lo \<le> a" "a < 10 powi hi" "- 324 \<le> lo" "hi \<le> 309"
  shows "lo < decimalExponent a" and "decimalExponent a \<le> hi"
    and "a < 10 powi decimalExponent a" and "10 powi (decimalExponent a - 1) \<le> a"
proof -
  let ?P = "\<lambda>n. a < 10 powi n"
  have lohi: "lo < hi"
  proof (rule ccontr)
    assume "\<not> lo < hi"
    then have "(10::real) powi hi \<le> 10 powi lo"
      by (intro power_int_increasing) simp_all
    with assms(1,2) show False by simp
  qed
  have h: "?P hi" "- 323 \<le> hi" using assms lohi by simp_all
  obtain q where q: "find ?P [- 323..309] = Some q" "q \<le> hi"
    using find_upto_le [of ?P hi "- 323" 309, OF h assms(4)] by blast
  have d: "decimalExponent a = q" by (simp only: decimalExponent_def q(1) option.case)
  note f = find_upto_Some [OF q(1)]
  have loq: "lo < q"
  proof (rule ccontr)
    assume "\<not> lo < q"
    then have "(10::real) powi q \<le> 10 powi lo"
      by (intro power_int_increasing) simp_all
    with assms(1) f(3) show False by simp
  qed
  have low: "10 powi (q - 1) \<le> a"
  proof (cases "- 323 \<le> q - 1")
    case True
    from f(4) [OF True] show ?thesis by simp
  next
    case False
    with f(1) loq assms(3) have "q - 1 = lo" by simp
    with assms(1) show ?thesis by simp
  qed
  show "lo < decimalExponent a" "decimalExponent a \<le> hi"
    "a < 10 powi decimalExponent a" "10 powi (decimalExponent a - 1) \<le> a"
    using d loq q(2) f(3) low by simp_all
qed

lemma digitsOf_small: "n < 10 \<Longrightarrow> digitsOf n = [digitChar n]"
  by (simp add: digitsOf.simps [of n])

lemma digitsOf_large: "10 \<le> n \<Longrightarrow> digitsOf n = digitsOf (n div 10) @ [digitChar (n mod 10)]"
  by (simp add: digitsOf.simps [of n])

lemma digitsOf_times10: "0 < m \<Longrightarrow> digitsOf (m * 10) = digitsOf m @ ''0''"
  by (simp add: digitsOf_large digitChar_def)

lemma digitsOf_times_pow10: "0 < m \<Longrightarrow> digitsOf (m * 10 ^ j) = digitsOf m @ replicate j CHR ''0''"
proof (induction j)
  case 0
  then show ?case by simp
next
  case (Suc j)
  have "m * 10 ^ Suc j = (m * 10 ^ j) * 10"
    by simp
  then have "digitsOf (m * 10 ^ Suc j) = digitsOf ((m * 10 ^ j) * 10)"
    by (rule arg_cong)
  also have "\<dots> = digitsOf (m * 10 ^ j) @ ''0''"
    using Suc.prems by (intro digitsOf_times10) simp
  also have "\<dots> = digitsOf m @ replicate (Suc j) CHR ''0''"
    using Suc by (simp add: replicate_append_same)
  finally show ?case .
qed

lemma foldl_closer_mem: "foldl (closer a k) c cs \<in> set (c # cs)"
proof (induction cs arbitrary: c)
  case Nil
  then show ?case by simp
next
  case (Cons d cs)
  have "closer a k c d = c \<or> closer a k c d = d"
    by (simp add: closer_def Let_def)
  with Cons [of "closer a k c d"] show ?case by auto
qed

lemma shortest_found:
  assumes "find (\<lambda>k. candidates a k \<noteq> []) [1..<18] = Some k"
  obtains n s where "shortest a = (n, k, s)" "(n, s) \<in> set (candidates a k)"
proof -
  from find_upt_Some(3) [OF assms] obtain c cs where c: "candidates a k = c # cs"
    by (cases "candidates a k") simp_all
  let ?b = "foldl (closer a k) c cs"
  have "shortest a = (fst ?b, k, snd ?b)"
    by (simp only: shortest_def assms c Let_def option.case list.case)
  moreover have "(fst ?b, snd ?b) \<in> set (candidates a k)"
    using foldl_closer_mem [of a k c cs] c by simp
  ultimately show thesis using that by blast
qed

lemma candidates_mem:
  assumes "(n, s) \<in> set (candidates a k)"
  shows "n = decimalExponent a \<or> n = decimalExponent a + 1"
    and "10 ^ (k - 1) \<le> s" and "s < 10 ^ k"
    and "fl64 (of_int s * 10 powi (n - int k)) = Fin a"
proof -
  from assms have r: "roundTrips a k (n, s)"
    by (simp add: candidates_def Let_def del: filter.simps)
  from assms show "n = decimalExponent a \<or> n = decimalExponent a + 1"
    by (auto simp: candidates_def Let_def simp del: filter.simps)
  from r show "10 ^ (k - 1) \<le> s" "s < 10 ^ k" "fl64 (of_int s * 10 powi (n - int k)) = Fin a"
    by (simp_all add: roundTrips_def)
qed

lemma is_double_of_int: "\<bar>m\<bar> \<le> 2 ^ 53 \<Longrightarrow> is_double (of_int m)"
proof (cases "\<bar>m\<bar> < 2 ^ 53")
  case True
  then show ?thesis using is_double_dyadic [of m 0] by simp
next
  case False
  assume "\<bar>m\<bar> \<le> 2 ^ 53"
  with False have "m = 2 ^ 53 \<or> m = - (2 ^ 53)" by linarith
  then show ?thesis
    using is_double_dyadic [of 1 53] is_double_dyadic [of "- 1" 53] by auto
qed

lemma int_roundtrip_exact:
  assumes N: "1 \<le> N" "N < 2 ^ 53" and V: "0 \<le> V"
    and f: "fl64 (of_int V) = Fin (of_int N)"
  shows "V = N"
proof (rule ccontr)
  assume "V \<noteq> N"
  then consider "N + 1 \<le> V" | "V \<le> N - 1" by linarith
  then show False
  proof cases
    case 1
    have d: "is_double (of_int (N + 1))" using N by (intro is_double_of_int) simp
    have "fl64 (of_int V) = PInf \<or> (\<exists>y. fl64 (of_int V) = Fin y \<and> of_int (N + 1) \<le> y)"
      by (rule fl64_lower [OF d]) (use N 1 in simp_all)
    with f show False by simp
  next
    case 2
    have d: "is_double (of_int (N - 1))" using N by (intro is_double_of_int) simp
    have "\<exists>y. fl64 (of_int V) = Fin y \<and> 0 \<le> y \<and> y \<le> of_int (N - 1)"
      by (rule fl64_upper [OF d]) (use V 2 in simp_all)
    with f show False by simp
  qed
qed


lemma digitChar_is_digit: "d < 10 \<Longrightarrow> isDigit (digitChar d)"
proof -
  assume "d < 10"
  then have "d \<in> {0, 1, 2, 3, 4, 5, 6, 7, 8, 9}" by auto
  then show ?thesis by (auto simp: digitChar_def isDigit_def)
qed

lemma digitsOf_digits: "list_all isDigit (digitsOf n)"
proof (induction n rule: digitsOf.induct)
  case (1 n)
  show ?case
  proof (cases "n < 10")
    case True
    then show ?thesis
      using digitChar_is_digit [of n] by (simp add: digitsOf_small)
  next
    case False
    then have "list_all isDigit (digitsOf (n div 10))"
      using "1.IH" by simp
    moreover have "isDigit (digitChar (n mod 10))"
      by (rule digitChar_is_digit) simp
    ultimately show ?thesis
      using False by (simp add: digitsOf_large)
  qed
qed

lemma isDigit_isNumeric: "isDigit c \<Longrightarrow> isNumeric c"
  by (auto simp: isDigit_def isNumeric_def)

lemma digitsOf_numeric: "list_all isNumeric (digitsOf n)"
  using digitsOf_digits [of n] by (simp add: list_all_iff isDigit_isNumeric)

lemma list_all_take_drop:
  "list_all P xs \<Longrightarrow> list_all P (take n xs) \<and> list_all P (drop n xs)"
  by (metis append_take_drop_id list_all_append)

lemma format_shortest_int:
  assumes N: "1 \<le> N" "N < 2 ^ 53"
  shows "formatNumber (shortest (of_int N)) = digitsOf (nat N)"
proof -
  let ?a = "of_int N :: real"
  define D where "D = decimalExponent ?a"
  have a1: "10 powi 0 \<le> ?a" using N by simp
  have "?a < 2 ^ 53" using N by (metis of_int_less_numeral_power_cancel_iff)
  moreover have "(2::real) ^ 53 \<le> 10 powi 16" by simp
  ultimately have a16: "?a < 10 powi 16" by (rule less_le_trans)
  from decimalExponent_range [OF a1 a16]
  have D: "0 < D" "D \<le> 16" "?a < 10 powi D" "10 powi (D - 1) \<le> ?a"
    by (simp_all add: D_def)
  define kD where "kD = nat D"
  have kD: "1 \<le> kD" "kD < 18" "int kD = D" using D by (simp_all add: kD_def)
  have "(10::real) powi (D - 1) = of_int (10 ^ (kD - 1))"
    using D(1) by (simp add: power_int_nonneg_exp kD_def nat_diff_distrib')
  with D(4) have lowN: "10 ^ (kD - 1) \<le> N"
    by (simp only: of_int_le_iff)
  have "(10::real) powi D = of_int (10 ^ kD)"
    using D(1) by (simp add: power_int_nonneg_exp kD_def)
  with D(3) have upN: "N < 10 ^ kD"
    by (simp only: of_int_less_iff)
  have rt: "roundTrips ?a kD (D, N)"
    using lowN upN N fl64_of_int [of N] by (simp add: roundTrips_def kD)
  have fl: "\<lfloor>?a / 10 powi (D - int kD)\<rfloor> = N"
    by (simp add: kD)
  have "(D, N) \<in> set (candidates ?a kD)"
    unfolding candidates_def Let_def D_def [symmetric] fl using rt by simp
  then have ne: "candidates ?a kD \<noteq> []" by auto
  from find_upt_le [of "\<lambda>k. candidates ?a k \<noteq> []" kD 1 18, OF ne kD(1) kD(2)]
  obtain k where k: "find (\<lambda>k. candidates ?a k \<noteq> []) [1..<18] = Some k" "k \<le> kD"
    by blast
  from find_upt_Some(1) [OF k(1)] have k1: "1 \<le> k" .
  from shortest_found [OF k(1)] obtain n s where
    sh: "shortest ?a = (n, k, s)" and mem: "(n, s) \<in> set (candidates ?a k)" by blast
  from candidates_mem [OF mem]
  have n: "n = D \<or> n = D + 1" and s: "10 ^ (k - 1) \<le> s"
    and f: "fl64 (of_int s * 10 powi (n - int k)) = Fin ?a"
    by (simp_all add: D_def)
  define j where "j = nat (n - int k)"
  have nk: "0 \<le> n - int k" using n k(2) kD(3) by auto
  have spos: "0 < s" using s by (metis less_le_trans zero_less_numeral zero_less_power)
  have "(10::real) powi (n - int k) = 10 ^ j"
    using nk by (simp add: power_int_nonneg_exp j_def)
  then have "of_int s * 10 powi (n - int k) = (of_int (s * 10 ^ j) :: real)"
    by simp
  with f have f': "fl64 (of_int (s * 10 ^ j)) = Fin (of_int N)" by simp
  have "0 \<le> s * 10 ^ j" using spos by simp
  from int_roundtrip_exact [OF N this f'] have eq: "s * 10 ^ j = N" .
  have n21: "int k \<le> n \<and> n \<le> 21" using nk n D(2) by auto
  have "formatNumber (n, k, s) = digitsOf (nat s) @ replicate j CHR ''0''"
    using n21 by (simp add: formatNumber_def Let_def j_def)
  also have "\<dots> = digitsOf (nat s * 10 ^ j)"
    using spos by (simp add: digitsOf_times_pow10)
  also have "nat s * 10 ^ j = nat (s * 10 ^ j)"
    using spos by (simp add: nat_mult_distrib nat_power_eq)
  finally show ?thesis using sh eq by simp
qed

lemma numToString_int:
  "1 \<le> N \<Longrightarrow> N < 2 ^ 53 \<Longrightarrow> numToString (Fin (of_int N)) = digitsOf (nat N)"
  using format_shortest_int [of N] by (simp add: numToString_def)

lemma numToString_numeral:
  "(numeral n :: int) < 2 ^ 53 \<Longrightarrow> numToString (Fin (numeral n)) = digitsOf (numeral n)"
  using numToString_int [of "numeral n"] by simp

lemma is_double_pow10_21: "is_double (10 ^ 21)"
  using is_double_dyadic [of 476837158203125 21] by simp

lemma shortest_exponent_range:
  assumes "10 powi (- 6) \<le> a" "a < 10 ^ 21"
  obtains n k s where "shortest a = (n, k, s)" "- 6 < n" "n \<le> 21"
proof -
  define n0 where "n0 = decimalExponent a"
  have a21: "a < 10 powi 21" using assms(2) by simp
  from decimalExponent_range [OF assms(1) a21]
  have n0: "- 6 < n0" "n0 \<le> 21" by (simp_all add: n0_def)
  show thesis
  proof (cases "find (\<lambda>k. candidates a k \<noteq> []) [1..<18]")
    case None
    then have "shortest a = (n0, 17, \<lfloor>a / 10 powi (n0 - 17)\<rfloor>)"
      by (simp only: shortest_def option.case n0_def)
    with n0 that show thesis by blast
  next
    case (Some k)
    from find_upt_Some(1) [OF Some] have k1: "1 \<le> k" .
    from shortest_found [OF Some] obtain n s where
      sh: "shortest a = (n, k, s)" and mem: "(n, s) \<in> set (candidates a k)" by blast
    from candidates_mem [OF mem]
    have n: "n = n0 \<or> n = n0 + 1" and s: "10 ^ (k - 1) \<le> s"
      and f: "fl64 (of_int s * 10 powi (n - int k)) = Fin a"
      by (simp_all add: n0_def)
    have "n \<noteq> 22"
    proof
      assume n22: "n = 22"
      have "(10::real) ^ (k - 1) \<le> of_int s"
        using s by (metis of_int_le_iff of_int_numeral of_int_power)
      then have le: "(10::real) ^ (k - 1) * 10 powi (22 - int k) \<le> of_int s * 10 powi (22 - int k)"
        by (intro mult_right_mono) simp_all
      have eq: "(10::real) ^ (k - 1) * 10 powi (22 - int k) = 10 ^ 21"
      proof -
        have "(10::real) ^ (k - 1) = 10 powi (int k - 1)"
          using k1 by (simp add: power_int_nonneg_exp nat_diff_distrib')
        moreover have "(10::real) powi (int k - 1) * 10 powi (22 - int k)
            = 10 powi (int k - 1 + (22 - int k))"
          by (rule power_int_add [symmetric]) simp
        moreover have "int k - 1 + (22 - int k) = 21" by simp
        ultimately show ?thesis by simp
      qed
      from le have "(10::real) ^ 21 \<le> of_int s * 10 powi (n - int k)"
        unfolding eq n22 .
      from fl64_lower [OF is_double_pow10_21 _ this] f assms(2) show False by simp
    qed
    with n n0 have "- 6 < n" "n \<le> 21" by auto
    with sh that show thesis by blast
  qed
qed

lemma formatNumber_decimal:
  assumes "- 6 < n" "n \<le> 21"
  shows "list_all isNumeric (formatNumber (n, k, s))"
proof -
  have d: "list_all isNumeric (digitsOf m)" for m by (rule digitsOf_numeric)
  have z: "list_all isNumeric (replicate m CHR ''0'')" for m
    by (simp add: list_all_iff isNumeric_def)
  have p: "isNumeric CHR ''.''" "isNumeric CHR ''0''" by (simp_all add: isNumeric_def)
  show ?thesis
    using assms d z p list_all_take_drop [OF d]
    by (simp add: formatNumber_def Let_def)
qed

lemma numToString_decimal:
  assumes "10 powi (- 6) \<le> \<bar>x\<bar>" "\<bar>x\<bar> < 10 ^ 21"
  shows "list_all isNumeric (numToString (Fin x))"
proof -
  from shortest_exponent_range [OF assms] obtain n k s where
    "shortest \<bar>x\<bar> = (n, k, s)" "- 6 < n" "n \<le> 21" by blast
  then have "list_all isNumeric (formatNumber (shortest \<bar>x\<bar>))"
    by (simp add: formatNumber_decimal)
  moreover have "isNumeric CHR ''-''" "isNumeric CHR ''0''" by (simp_all add: isNumeric_def)
  ultimately show ?thesis by (simp add: numToString_def)
qed

section \<open>Detail projector: theorems\<close>

lemma filter_numeric: "list_all isNumeric ds \<Longrightarrow> filter (\<lambda>c. \<not> isNumeric c) ds = []"
  by (induction ds) simp_all

lemma unitOf_number:
  assumes "10 powi (- 6) \<le> \<bar>x\<bar>" "\<bar>x\<bar> < 10 ^ 21"
  shows "unitOf (Num (Fin x)) = []"
  unfolding unitOf_def toString.simps
  by (rule filter_numeric) (rule numToString_decimal [OF assms])

lemma progressSets_other: "field \<noteq> ''sets'' \<Longrightarrow> progressSets b w s a r field = r field"
  by (simp add: progressSets_def split: jsval.split option.split)

lemma progressReps_other: "field \<noteq> ''reps'' \<Longrightarrow> progressReps b w s a r field = r field"
  by (simp add: progressReps_def Let_def split: option.split)

lemma progressWeight_other: "field \<noteq> ''weight'' \<Longrightarrow> progressWeight b w s a r field = r field"
  by (simp add: progressWeight_def Let_def split: jsval.split option.split prod.split)

lemma progressDuration_other:
  "field \<noteq> ''duration'' \<Longrightarrow> progressDuration b w s a r field = r field"
  by (simp add: progressDuration_def split: jsval.split option.split)

lemma applyProgression_frame:
  "field \<notin> {''sets'', ''reps'', ''weight'', ''duration''} \<Longrightarrow>
   applyProgression b w s f field = b field"
  by (simp add: applyProgression_def Let_def progressSets_other progressReps_other
      progressWeight_other progressDuration_other)

lemma applyProgression_reps:
  "applyProgression b w s f ''reps'' =
     progressReps b w s (case f of None \<Rightarrow> Fin 1 | Some a \<Rightarrow> a) b ''reps''"
proof -
  let ?a = "case f of None \<Rightarrow> Fin 1 | Some a \<Rightarrow> a"
  have "applyProgression b w s f ''reps''
        = progressReps b w s ?a (progressSets b w s ?a b) ''reps''"
    by (simp add: applyProgression_def Let_def progressWeight_other progressDuration_other)
  also have "\<dots> = progressReps b w s ?a b ''reps''"
    by (cases "truthyIncrement s ''reps''")
       (simp_all add: progressReps_def Let_def progressSets_other)
  finally show ?thesis .
qed

text \<open>The value of the reps field for a baseline that is a truthy Number.\<close>

lemma applyProgression_reps_number:
  assumes "b ''reps'' = Some (Num n)" "numTruthy n"
    and "increments s ''reps'' = Some inc" "numTruthy inc"
  shows "applyProgression b w s f ''reps'' =
     Some (Str (numToString
                  (Math_round
                     (calculateProgressiveValue n w inc (userMultiplier s) (strategy s)
                        (Some (case f of None \<Rightarrow> Fin 1 | Some a \<Rightarrow> a))))
                @ unitOf (Num n)))"
  using assms
  by (simp add: applyProgression_reps progressReps_def progress_def getProp_def
      truthyIncrement_def parseFloatOf_def numTruthy_def Let_def)

lemma applyProgression_reps_falsy:
  assumes "b ''reps'' = Some (Num n)" "\<not> numTruthy n"
  shows "applyProgression b w s f ''reps'' = Some (Num n)"
  using assms by (simp add: applyProgression_reps progressReps_def getProp_def)

lemma reps_10s:
  assumes "b ''reps'' = Some (Str ''10s'')" "strategy s = Some ''linear''"
    and "increments s ''reps'' = Some (Fin 2)" "userMultiplier s = Some (Fin 1)"
  shows "applyProgression b 3 s (Some (Fin 1)) ''reps'' = Some (Str ''14s'')"
    and "applyProgression b 2 s (Some (Fin 1)) ''reps'' = Some (Str ''12s'')"
proof -
  have reps: "getProp b ''reps'' = Str ''10s''"
    using assms by (simp add: getProp_def)
  have inc: "truthyIncrement s ''reps'' = Some (Fin 2)"
    using assms by (simp add: truthyIncrement_def numTruthy_def)
  have parse: "parseFloatOf (Str ''10s'') = Fin 10"
    by (simp add: parseFloatOf_def parseFloat_def signOf_def isWhiteSpace_def isDigit_def
        decimalValue_def digitValue_def exponentPart_def Let_def fl64_numeral)
  have unit: "unitOf (Str ''10s'') = ''s''"
    by (simp add: unitOf_def isNumeric_def)
  have p3: "progress s 3 (Fin 1) (Fin 10) (Fin 2) = Fin 14"
    using assms by (simp add: progress_def calculateProgressiveValue_def fl64_numeral)
  have p2: "progress s 2 (Fin 1) (Fin 10) (Fin 2) = Fin 12"
    using assms by (simp add: progress_def calculateProgressiveValue_def fl64_numeral)
  have s14: "numToString (Fin 14) = ''14''"
    by (simp add: numToString_numeral digitsOf_small digitsOf_large digitChar_def)
  have s12: "numToString (Fin 12) = ''12''"
    by (simp add: numToString_numeral digitsOf_small digitsOf_large digitChar_def)
  show "applyProgression b 3 s (Some (Fin 1)) ''reps'' = Some (Str ''14s'')"
    by (simp add: applyProgression_reps progressReps_def Let_def reps inc parse unit p3 s14)
  show "applyProgression b 2 s (Some (Fin 1)) ''reps'' = Some (Str ''12s'')"
    by (simp add: applyProgression_reps progressReps_def Let_def reps inc parse unit p2 s12)
qed

text \<open>
  Against C2 as stated: the baseline \<open>reps = "10s"\<close>, \<open>increments.reps = 2\<close>, linear,
  multiplier and adaptive factor 1, at week 3. The result is not \<open>"12s"\<close>.
\<close>

theorem C2_reps_week3_counterexample:
  "applyProgression [''reps'' \<mapsto> Str ''10s''] 3
      \<lparr>strategy = Some ''linear'', increments = [''reps'' \<mapsto> Fin 2], userMultiplier = Some (Fin 1)\<rparr>
      (Some (Fin 1)) ''reps'' \<noteq> Some (Str ''12s'')"
proof -
  have "applyProgression [''reps'' \<mapsto> Str ''10s''] 3
      \<lparr>strategy = Some ''linear'', increments = [''reps'' \<mapsto> Fin 2], userMultiplier = Some (Fin 1)\<rparr>
      (Some (Fin 1)) ''reps'' = Some (Str ''14s'')"
    by (rule reps_10s(1)) simp_all
  then show ?thesis by simp
qed

text \<open>
  C2, amended. Projecting a baseline whose \<open>reps\<close> is the string \<open>"10s"\<close> with
  \<open>increments.reps = 2\<close> (linear strategy, user multiplier 1, adaptive factor 1) yields
  \<open>"14s"\<close> at week 3, which is \<open>10 + 2 * (3 - 1)\<close> with the unit suffix intact;
  \<open>"12s"\<close> is the value at week 2.
\<close>

theorem C2_reps_unit_preserved:
  "b ''reps'' = Some (Str ''10s'') \<and> strategy s = Some ''linear''
     \<and> increments s ''reps'' = Some (Fin 2) \<and> userMultiplier s = Some (Fin 1) \<longrightarrow>
   applyProgression b 3 s (Some (Fin 1)) ''reps'' = Some (Str ''14s'')
   \<and> applyProgression b 2 s (Some (Fin 1)) ''reps'' = Some (Str ''12s'')"
  using reps_10s [of b s] by blast

theorem C2_reps_unit_preserved_witness:
  "applyProgression
      [''sets'' \<mapsto> Num (Fin 3), ''reps'' \<mapsto> Str ''10s'', ''weight'' \<mapsto> Str ''Bodyweight'',
       ''rest'' \<mapsto> Num (Fin 180)] 3
      \<lparr>strategy = Some ''linear'', increments = [''reps'' \<mapsto> Fin 2], userMultiplier = Some (Fin 1)\<rparr>
      (Some (Fin 1)) ''reps'' = Some (Str ''14s'')"
  using C2_reps_unit_preserved
    [of "[''sets'' \<mapsto> Num (Fin 3), ''reps'' \<mapsto> Str ''10s'', ''weight'' \<mapsto> Str ''Bodyweight'',
          ''rest'' \<mapsto> Num (Fin 180)]"
        "\<lparr>strategy = Some ''linear'', increments = [''reps'' \<mapsto> Fin 2],
          userMultiplier = Some (Fin 1)\<rparr>"]
  by simp

text \<open>
  C8. The detail projector leaves \<open>rest\<close>, \<open>description\<close> and every field other than
  \<open>sets\<close>, \<open>reps\<close>, \<open>weight\<close> and \<open>duration\<close> as the baseline has it: present with
  the same value, or absent.
\<close>

theorem C8_other_fields_unchanged:
  "applyProgression b w s f ''rest'' = b ''rest''
   \<and> applyProgression b w s f ''description'' = b ''description''
   \<and> (field \<notin> {''sets'', ''reps'', ''weight'', ''duration''} \<longrightarrow>
        applyProgression b w s f field = b field)"
proof (intro conjI impI)
  show "applyProgression b w s f ''rest'' = b ''rest''"
    by (rule applyProgression_frame) simp
  show "applyProgression b w s f ''description'' = b ''description''"
    by (rule applyProgression_frame) simp
  show "applyProgression b w s f field = b field"
    if "field \<notin> {''sets'', ''reps'', ''weight'', ''duration''}"
    using that by (rule applyProgression_frame)
qed

theorem C8_other_fields_unchanged_witness:
  "applyProgression
      [''sets'' \<mapsto> Num (Fin 3), ''reps'' \<mapsto> Str ''10s'', ''weight'' \<mapsto> Str ''80kg'',
       ''rest'' \<mapsto> Num (Fin 180), ''tempo'' \<mapsto> Str ''slow'']
      3
      \<lparr>strategy = Some ''linear'',
       increments = [''sets'' \<mapsto> Fin 1, ''reps'' \<mapsto> Fin 2, ''weight'' \<mapsto> Fin 2.5],
       userMultiplier = Some (Fin 1)\<rparr>
      (Some (Fin 1)) ''tempo'' = Some (Str ''slow'')"
  using C8_other_fields_unchanged
    [of "[''sets'' \<mapsto> Num (Fin 3), ''reps'' \<mapsto> Str ''10s'', ''weight'' \<mapsto> Str ''80kg'',
          ''rest'' \<mapsto> Num (Fin 180), ''tempo'' \<mapsto> Str ''slow'']"
        3
        "\<lparr>strategy = Some ''linear'',
          increments = [''sets'' \<mapsto> Fin 1, ''reps'' \<mapsto> Fin 2, ''weight'' \<mapsto> Fin 2.5],
          userMultiplier = Some (Fin 1)\<rparr>"
        "Some (Fin 1)" "''tempo''"]
  by simp

text \<open>
  Two projections where binary64 rounding shows: 60 reps at 2.5 percent a week, and
  \<open>10 ^ 21\<close> reps with two more a week.
\<close>

lemma fl64_percent_step1:
  "fl64 (2.5 / 100) = Fin (3602879701896397 / 144115188075855872)"
  using fl64_eval [of "- 58" "2.5 / 100" 7205759403792794]
  by (simp add: power_int_minus)

lemma fl64_percent_step2:
  "fl64 (1 + 3602879701896397 / 144115188075855872) = Fin (2308094809027379 / 2251799813685248)"
  using fl64_eval [of "- 52" "1 + 3602879701896397 / 144115188075855872" 4616189618054758]
  by (simp add: power_int_minus)

lemma fl64_percent_step3:
  "fl64 (2308094809027379 / 2251799813685248) = Fin (2308094809027379 / 2251799813685248)"
  using fl64_dyadic [of 4616189618054758 "- 52"]
  by (simp add: power_int_minus)

lemma fl64_percent_step4:
  "fl64 (60 * (2308094809027379 / 2251799813685248)) = Fin (8655355533852671 / 140737488355328)"
  using fl64_eval [of "- 47" "60 * (2308094809027379 / 2251799813685248)" 8655355533852671]
  by (simp add: power_int_minus)


lemma percentage_60:
  "calculateProgressiveValue (Fin 60) 2 (Fin 2.5) (Some (Fin 1)) (Some ''percentage'')
     (Some (Fin 1)) = Fin (8655355533852671 / 140737488355328)"
proof -
  have d: "js_div (Fin 2.5) (Fin 100) = Fin (3602879701896397 / 144115188075855872)"
    using fl64_percent_step1 by simp
  have a: "js_add (Fin 1) (Fin (3602879701896397 / 144115188075855872))
             = Fin (2308094809027379 / 2251799813685248)"
    using fl64_percent_step2 by simp
  have e: "js_mul (js_mul (fl64 (of_int (2 - 1))) (Fin 1)) (Fin 1) = Fin 1"
    by simp
  have p: "Math_pow (Fin (2308094809027379 / 2251799813685248)) (Fin 1)
             = Fin (2308094809027379 / 2251799813685248)"
    using Math_pow_pos_base [of "2308094809027379 / 2251799813685248" 1]
    by (simp add: fl64_percent_step3)
  have m: "js_mul (Fin 60) (Fin (2308094809027379 / 2251799813685248))
             = Fin (8655355533852671 / 140737488355328)"
    using fl64_percent_step4 by simp
  show ?thesis
    unfolding calculateProgressiveValue_def Let_def option.case d a e p m by simp
qed

lemma round_percentage_60: "Math_round (Fin (8655355533852671 / 140737488355328)) = Fin 61"
proof -
  have "\<lfloor>8655355533852671 / 140737488355328 + 1 / 2 :: real\<rfloor> = 61"
    by (rule floor_unique) simp_all
  then show ?thesis by simp
qed

lemma fl64_1e21: "fl64 (10 ^ 21) = Fin (10 ^ 21)"
  using is_double_pow10_21 by (simp add: is_double_def)

lemma fl64_1e21_plus: "fl64 (10 ^ 21 + 4) = Fin (10 ^ 21)"
  using fl64_eval [of 17 "10 ^ 21 + 4" 7629394531250000]
  by simp

lemma fl64_2e21: "fl64 (2 * 10 ^ 21) = Fin (2 * 10 ^ 21)"
  using fl64_dyadic [of 476837158203125 22] by simp

lemma fl64_1e22: "fl64 (10 ^ 22) = Fin (10 ^ 22)"
  using fl64_dyadic [of 2384185791015625 22] by simp

lemma decimalExponent_1e21: "decimalExponent (10 ^ 21) = 22"
  using decimalExponent_range(1,2) [of 21 "10 ^ 21" 22] by simp

lemma candidates_1e21: "candidates (10 ^ 21) 1 = [(22, 1)]"
proof -
  have s0: "\<lfloor>10 ^ 21 / 10 powi (22 - int 1) :: real\<rfloor> = 1" by simp
  have s1: "\<lfloor>10 ^ 21 / 10 powi (22 + 1 - int 1) :: real\<rfloor> = 0" by simp
  have a: "roundTrips (10 ^ 21) 1 (22, 1)"
    using fl64_1e21 by (simp add: roundTrips_def)
  have b: "\<not> roundTrips (10 ^ 21) 1 (22, 2)"
    using fl64_2e21 by (simp add: roundTrips_def)
  have c: "\<not> roundTrips (10 ^ 21) 1 (23, 0)"
    by (simp add: roundTrips_def)
  have d: "\<not> roundTrips (10 ^ 21) 1 (23, 1)"
    using fl64_1e22 by (simp add: roundTrips_def)
  show ?thesis
    unfolding candidates_def decimalExponent_1e21 Let_def s0 s1
    using a b c d by simp
qed

lemma shortest_1e21: "shortest (10 ^ 21) = (22, 1, 1)"
proof -
  have "candidates (10 ^ 21) 1 \<noteq> []" unfolding candidates_1e21 by simp
  from find_upt_le [of "\<lambda>k. candidates (10 ^ 21) k \<noteq> []" 1 1 18, OF this]
  obtain k where k: "find (\<lambda>k. candidates (10 ^ 21) k \<noteq> []) [1..<18] = Some k" "k \<le> 1"
    by auto
  from find_upt_Some(1) [OF k(1)] k(2) have "k = 1" by simp
  with k(1) have f: "find (\<lambda>k. candidates (10 ^ 21) k \<noteq> []) [1..<18] = Some 1" by simp
  show ?thesis
    by (simp only: shortest_def f option.case candidates_1e21 list.case foldl.simps Let_def
        fst_conv snd_conv)
qed

lemma numToString_1e21: "numToString (Fin (10 ^ 21)) = ''1e+21''"
proof -
  have fm: "formatNumber (22, 1, 1) = ''1e+21''"
    by (simp add: formatNumber_def digitsOf_small digitsOf_large digitChar_def)
  have ab: "\<bar>10 ^ 21 :: real\<bar> = 10 ^ 21"
    by simp
  show ?thesis
    unfolding numToString_def jsnum.case ab shortest_1e21 fm by simp
qed

lemma linear_1e21:
  "calculateProgressiveValue (Fin (10 ^ 21)) 3 (Fin 2) (Some (Fin 1)) (Some ''linear'')
     (Some (Fin 1)) = Fin (10 ^ 21)"
  using fl64_1e21_plus by (simp add: calculateProgressiveValue_def fl64_numeral)

text \<open>
  Against C10 as stated, twice. First a baseline \<open>reps\<close> that is the plain number 0, with
  \<open>increments.reps = 2\<close>: the guard \<open>if (baselineDetails.reps)\<close> is false, the field is
  not touched and stays the number 0. Then the plain number \<open>10 ^ 21\<close>: its string is
  \<open>1e+21\<close>, of which the characters \<open>e+\<close> are kept as the unit, so the suffix is not
  empty.
\<close>

theorem C10_zero_reps_counterexample:
  "applyProgression [''reps'' \<mapsto> Num (Fin 0)] 3
      \<lparr>strategy = Some ''linear'', increments = [''reps'' \<mapsto> Fin 2], userMultiplier = Some (Fin 1)\<rparr>
      (Some (Fin 1)) ''reps'' = Some (Num (Fin 0))
   \<and> applyProgression [''reps'' \<mapsto> Num (Fin (10 ^ 21))] 3
      \<lparr>strategy = Some ''linear'', increments = [''reps'' \<mapsto> Fin 2], userMultiplier = Some (Fin 1)\<rparr>
      (Some (Fin 1)) ''reps'' = Some (Str ''1e+21e+'')"
proof
  show "applyProgression [''reps'' \<mapsto> Num (Fin 0)] 3
      \<lparr>strategy = Some ''linear'', increments = [''reps'' \<mapsto> Fin 2], userMultiplier = Some (Fin 1)\<rparr>
      (Some (Fin 1)) ''reps'' = Some (Num (Fin 0))"
    by (rule applyProgression_reps_falsy) (simp_all add: numTruthy_def)
  have r: "Math_round (Fin (10 ^ 21)) = Fin (10 ^ 21)"
    by simp
  have u: "unitOf (Num (Fin (10 ^ 21))) = ''e+''"
    by (simp only: unitOf_def toString.simps numToString_1e21) (simp add: isNumeric_def)
  have "applyProgression [''reps'' \<mapsto> Num (Fin (10 ^ 21))] 3
      \<lparr>strategy = Some ''linear'', increments = [''reps'' \<mapsto> Fin 2], userMultiplier = Some (Fin 1)\<rparr>
      (Some (Fin 1)) ''reps''
      = Some (Str (numToString
                  (Math_round
                     (calculateProgressiveValue (Fin (10 ^ 21)) 3 (Fin 2) (Some (Fin 1))
                        (Some ''linear'') (Some (Fin 1))))
                @ unitOf (Num (Fin (10 ^ 21)))))"
    using applyProgression_reps_number
      [of "[''reps'' \<mapsto> Num (Fin (10 ^ 21))]" "Fin (10 ^ 21)"
          "\<lparr>strategy = Some ''linear'', increments = [''reps'' \<mapsto> Fin 2],
            userMultiplier = Some (Fin 1)\<rparr>" "Fin 2" 3 "Some (Fin 1)"]
    by (simp add: numTruthy_def)
  also have "\<dots> = Some (Str ''1e+21e+'')"
    by (simp only: linear_1e21 r u numToString_1e21) simp
  finally show "applyProgression [''reps'' \<mapsto> Num (Fin (10 ^ 21))] 3
      \<lparr>strategy = Some ''linear'', increments = [''reps'' \<mapsto> Fin 2], userMultiplier = Some (Fin 1)\<rparr>
      (Some (Fin 1)) ''reps'' = Some (Str ''1e+21e+'')" .
qed

text \<open>
  C10, amended. If the baseline \<open>reps\<close> is a truthy plain number (not zero, not NaN)
  and \<open>increments.reps\<close> is truthy, the projector returns \<open>reps\<close> as a string: the
  rounded projected value, written as Number::toString writes it, followed by the
  characters of the baseline number's own string that are not digits, points or minus
  signs. For a number of magnitude at least \<open>10 ^ - 6\<close> and less than \<open>10 ^ 21\<close>,
  integer or not, there are no such characters and the suffix is empty. A baseline
  \<open>reps\<close> that is a falsy number (zero or NaN) is left as it is, a number.
\<close>

theorem C10_number_reps_becomes_string:
  "(b ''reps'' = Some (Num n) \<and> numTruthy n \<and> increments s ''reps'' = Some inc \<and> numTruthy inc \<longrightarrow>
      applyProgression b w s f ''reps'' =
        Some (Str (numToString
                     (Math_round
                        (calculateProgressiveValue n w inc (userMultiplier s) (strategy s)
                           (Some (case f of None \<Rightarrow> Fin 1 | Some a \<Rightarrow> a))))
                   @ unitOf (Num n))))
   \<and> (10 powi (- 6) \<le> \<bar>x\<bar> \<and> \<bar>x\<bar> < 10 ^ 21 \<longrightarrow> unitOf (Num (Fin x)) = [])
   \<and> (b ''reps'' = Some (Num n) \<and> \<not> numTruthy n \<longrightarrow>
        applyProgression b w s f ''reps'' = Some (Num n))"
proof (intro conjI impI)
  assume "b ''reps'' = Some (Num n) \<and> numTruthy n \<and> increments s ''reps'' = Some inc \<and> numTruthy inc"
  then show "applyProgression b w s f ''reps'' =
        Some (Str (numToString
                     (Math_round
                        (calculateProgressiveValue n w inc (userMultiplier s) (strategy s)
                           (Some (case f of None \<Rightarrow> Fin 1 | Some a \<Rightarrow> a))))
                   @ unitOf (Num n)))"
    using applyProgression_reps_number [of b n s inc w f] by blast
next
  assume "10 powi (- 6) \<le> \<bar>x\<bar> \<and> \<bar>x\<bar> < 10 ^ 21"
  then show "unitOf (Num (Fin x)) = []"
    using unitOf_number [of x] by blast
next
  assume "b ''reps'' = Some (Num n) \<and> \<not> numTruthy n"
  then show "applyProgression b w s f ''reps'' = Some (Num n)"
    using applyProgression_reps_falsy [of b n w s f] by blast
qed

theorem C10_number_reps_becomes_string_witness:
  "applyProgression [''reps'' \<mapsto> Num (Fin 10)] 3
      \<lparr>strategy = Some ''linear'', increments = [''reps'' \<mapsto> Fin 2], userMultiplier = Some (Fin 1)\<rparr>
      (Some (Fin 1)) ''reps'' = Some (Str ''14'')
   \<and> applyProgression [''reps'' \<mapsto> Num (Fin 7.5)] 3
      \<lparr>strategy = Some ''linear'', increments = [''reps'' \<mapsto> Fin 2], userMultiplier = Some (Fin 1)\<rparr>
      (Some (Fin 1)) ''reps'' = Some (Str ''12'')
   \<and> applyProgression [''reps'' \<mapsto> Num (Fin 60)] 2
      \<lparr>strategy = Some ''percentage'', increments = [''reps'' \<mapsto> Fin 2.5],
       userMultiplier = Some (Fin 1)\<rparr>
      (Some (Fin 1)) ''reps'' = Some (Str ''61'')
   \<and> applyProgression [''reps'' \<mapsto> Num NaN] 3
      \<lparr>strategy = Some ''linear'', increments = [''reps'' \<mapsto> Fin 2], userMultiplier = Some (Fin 1)\<rparr>
      (Some (Fin 1)) ''reps'' = Some (Num NaN)"
proof -
  let ?lin = "\<lparr>strategy = Some ''linear'', increments = [''reps'' \<mapsto> Fin 2],
               userMultiplier = Some (Fin 1)\<rparr>"
  let ?pct = "\<lparr>strategy = Some ''percentage'', increments = [''reps'' \<mapsto> Fin 2.5],
               userMultiplier = Some (Fin 1)\<rparr>"
  note t10 = C10_number_reps_becomes_string
      [of "[''reps'' \<mapsto> Num (Fin 10)]" "Fin 10" ?lin "Fin 2" 3 "Some (Fin 1)" 10]
  note t75 = C10_number_reps_becomes_string
      [of "[''reps'' \<mapsto> Num (Fin 7.5)]" "Fin 7.5" ?lin "Fin 2" 3 "Some (Fin 1)" "7.5"]
  note t60 = C10_number_reps_becomes_string
      [of "[''reps'' \<mapsto> Num (Fin 60)]" "Fin 60" ?pct "Fin 2.5" 2 "Some (Fin 1)" 60]
  note tnan = C10_number_reps_becomes_string
      [of "[''reps'' \<mapsto> Num NaN]" NaN ?lin "Fin 2" 3 "Some (Fin 1)" 10]
  have u10: "unitOf (Num (Fin 10)) = []"
    using t10 [THEN conjunct2, THEN conjunct1] by (simp add: power_int_minus)
  have u75: "unitOf (Num (Fin 7.5)) = []"
    using t75 [THEN conjunct2, THEN conjunct1] by (simp add: power_int_minus)
  have u60: "unitOf (Num (Fin 60)) = []"
    using t60 [THEN conjunct2, THEN conjunct1] by (simp add: power_int_minus)
  have v10: "calculateProgressiveValue (Fin 10) 3 (Fin 2) (Some (Fin 1)) (Some ''linear'')
               (Some (Fin 1)) = Fin 14"
    by (simp add: calculateProgressiveValue_def fl64_numeral)
  have f75: "fl64 (23 / 2) = Fin (23 / 2)"
    using fl64_dyadic [of 23 "- 1"] by (simp add: power_int_minus)
  have v75: "calculateProgressiveValue (Fin 7.5) 3 (Fin 2) (Some (Fin 1)) (Some ''linear'')
               (Some (Fin 1)) = Fin (23 / 2)"
    by (simp add: calculateProgressiveValue_def fl64_numeral f75)
  have r14: "Math_round (Fin 14) = Fin 14"
    by simp
  have r75: "Math_round (Fin (23 / 2)) = Fin 12"
  proof -
    have "\<lfloor>23 / 2 + 1 / 2 :: real\<rfloor> = 12" by (rule floor_unique) simp_all
    then show ?thesis by simp
  qed
  have s14: "numToString (Fin 14) = ''14''"
    by (simp add: numToString_numeral digitsOf_small digitsOf_large digitChar_def)
  have s12: "numToString (Fin 12) = ''12''"
    by (simp add: numToString_numeral digitsOf_small digitsOf_large digitChar_def)
  have s61: "numToString (Fin 61) = ''61''"
    by (simp add: numToString_numeral digitsOf_small digitsOf_large digitChar_def)
  have a0: "applyProgression [''reps'' \<mapsto> Num (Fin 10)] 3 ?lin (Some (Fin 1)) ''reps''
      = Some (Str (numToString
                  (Math_round
                     (calculateProgressiveValue (Fin 10) 3 (Fin 2) (Some (Fin 1))
                        (Some ''linear'') (Some (Fin 1))))
                @ unitOf (Num (Fin 10))))"
    using t10 [THEN conjunct1] by (simp add: numTruthy_def)
  have a: "applyProgression [''reps'' \<mapsto> Num (Fin 10)] 3 ?lin (Some (Fin 1)) ''reps''
             = Some (Str ''14'')"
    unfolding a0 v10 r14 u10 s14 by simp
  have b0: "applyProgression [''reps'' \<mapsto> Num (Fin 7.5)] 3 ?lin (Some (Fin 1)) ''reps''
      = Some (Str (numToString
                  (Math_round
                     (calculateProgressiveValue (Fin 7.5) 3 (Fin 2) (Some (Fin 1))
                        (Some ''linear'') (Some (Fin 1))))
                @ unitOf (Num (Fin 7.5))))"
    using t75 [THEN conjunct1] by (simp add: numTruthy_def)
  have b: "applyProgression [''reps'' \<mapsto> Num (Fin 7.5)] 3 ?lin (Some (Fin 1)) ''reps''
             = Some (Str ''12'')"
    unfolding b0 v75 r75 u75 s12 by simp
  have c0: "applyProgression [''reps'' \<mapsto> Num (Fin 60)] 2 ?pct (Some (Fin 1)) ''reps''
      = Some (Str (numToString
                  (Math_round
                     (calculateProgressiveValue (Fin 60) 2 (Fin 2.5) (Some (Fin 1))
                        (Some ''percentage'') (Some (Fin 1))))
                @ unitOf (Num (Fin 60))))"
    using t60 [THEN conjunct1] by (simp add: numTruthy_def)
  have c: "applyProgression [''reps'' \<mapsto> Num (Fin 60)] 2 ?pct (Some (Fin 1)) ''reps''
             = Some (Str ''61'')"
    unfolding c0 percentage_60 round_percentage_60 u60 s61 by simp
  have d: "applyProgression [''reps'' \<mapsto> Num NaN] 3 ?lin (Some (Fin 1)) ''reps''
             = Some (Num NaN)"
    using tnan [THEN conjunct2, THEN conjunct2] by (simp add: numTruthy_def)
  from a b c d show ?thesis by blast
qed

end
